theory Spec2Isabelle
  imports Main "HOL-Library.Word"
begin

unbundle bit_operations_syntax

section \<open>The persistent ordered store\<close>

text \<open>
  The class \<open>OptionallyPersistentOrderedThreadSafeDict\<close> of
  \<open>persistent_dictionary.py\<close>, in its in-memory form: the values live in
  \<open>_db\<close>, the key order in the list \<open>_order\<close>, the keys tagged for removal in the
  ordered dictionary \<open>_tagged_for_removal\<close> (its keys, oldest tag first), and
  \<open>_max_size\<close> is the capacity (0 = unbounded). Every method runs under the one
  reentrant lock, so a method is a function from store to store.
\<close>

datatype error = FullDictionaryError | ValueError | KeyError | TypeError | IndexError
  | AttributeError

record 'v store =
  db :: "string \<rightharpoonup> 'v"
  order :: "string list"
  tagged_for_removal :: "string list"
  max_size :: int

definition empty_store :: "int \<Rightarrow> 'v store" where
  "empty_store n = \<lparr>db = Map.empty, order = [], tagged_for_removal = [], max_size = n\<rparr>"

text \<open>\<open>list.remove(x)\<close>: drops the first occurrence, raises \<open>ValueError\<close> when there is none.\<close>

definition list_remove :: "'a \<Rightarrow> 'a list \<Rightarrow> 'a list option" where
  "list_remove x xs = (if x \<in> set xs then Some (remove1 x xs) else None)"

text \<open>\<open>OrderedDict.pop(key, None)\<close> on the tag dictionary: the key is gone afterwards.\<close>

definition dict_pop :: "string \<Rightarrow> string list \<Rightarrow> string list" where
  "dict_pop key ks = removeAll key ks"

text \<open>
  \<open>_set_item\<close>. The result pairs the exception raised (if any) with the store as the
  method leaves it, since a raise keeps the mutations made before it.
\<close>

definition evict_tagged :: "'v store \<Rightarrow> error option \<times> 'v store" where
  "evict_tagged s =
     (case tagged_for_removal s of
        [] \<Rightarrow> (Some FullDictionaryError, s)
      | removal_key # rest \<Rightarrow>
          (let s1 = s\<lparr>tagged_for_removal := rest\<rparr> in
           if removal_key \<notin> dom (db s1) then (Some KeyError, s1)
           else
             (let s2 = s1\<lparr>db := (db s1)(removal_key := None)\<rparr> in
              case list_remove removal_key (order s2) of
                None \<Rightarrow> (Some ValueError, s2)
              | Some o2 \<Rightarrow> (None, s2\<lparr>order := o2\<rparr>))))"

definition set_item :: "'v store \<Rightarrow> string \<Rightarrow> 'v \<Rightarrow> error option \<times> 'v store" where
  "set_item s key val =
     (if key \<in> dom (db s) then
        (let s1 = s\<lparr>db := (db s)(key \<mapsto> val)\<rparr> in
         case list_remove key (order s1) of
           None \<Rightarrow> (Some ValueError, s1)
         | Some o1 \<Rightarrow>
             (None, s1\<lparr>order := o1 @ [key],
                       tagged_for_removal := dict_pop key (tagged_for_removal s1)\<rparr>))
      else
        (let (err, s1) =
               (if 0 < max_size s \<and> max_size s \<le> int (length (order s))
                then evict_tagged s else (None, s))
         in case err of
              Some e \<Rightarrow> (Some e, s1)
            | None \<Rightarrow> (None, s1\<lparr>db := (db s1)(key \<mapsto> val), order := order s1 @ [key]\<rparr>)))"

text \<open>\<open>__delitem__\<close> (through \<open>_del_internal\<close>).\<close>

definition del_item :: "'v store \<Rightarrow> string \<Rightarrow> error option \<times> 'v store" where
  "del_item s key =
     (if key \<in> dom (db s) then
        (let s1 = s\<lparr>db := (db s)(key := None)\<rparr> in
         case list_remove key (order s1) of
           None \<Rightarrow> (Some ValueError, s1)
         | Some o1 \<Rightarrow>
             (None, s1\<lparr>order := o1, tagged_for_removal := dict_pop key (tagged_for_removal s1)\<rparr>))
      else (None, s))"

definition tag_for_removal :: "'v store \<Rightarrow> string \<Rightarrow> 'v store" where
  "tag_for_removal s key =
     (if key \<in> set (order s) \<and> key \<notin> set (tagged_for_removal s)
      then s\<lparr>tagged_for_removal := tagged_for_removal s @ [key]\<rparr> else s)"

definition store_len :: "'v store \<Rightarrow> nat" where
  "store_len s = length (order s)"

definition store_contains :: "'v store \<Rightarrow> string \<Rightarrow> bool" where
  "store_contains s key = (key \<in> set (order s) \<and> key \<in> dom (db s))"

definition store_get :: "'v store \<Rightarrow> string \<Rightarrow> 'v option" where
  "store_get s key = db s key"

definition keys :: "'v store \<Rightarrow> string list" where
  "keys s = order s"

text \<open>\<open>get_items_reversed\<close>: \<open>[db[key] for key in reversed(order)]\<close>; a key of the
  order that has no value raises \<open>KeyError\<close>.\<close>

definition get_items_reversed :: "'v store \<Rightarrow> error + 'v list" where
  "get_items_reversed s =
     (case those (map (db s) (rev (order s))) of
        None \<Rightarrow> Inl KeyError
      | Some vs \<Rightarrow> Inr vs)"

text \<open>
  The consistency every in-memory store keeps: the order lists exactly the keys that
  have a value, once each, and the tags are keys of the order, once each.
\<close>

definition store_ok :: "'v store \<Rightarrow> bool" where
  "store_ok s \<longleftrightarrow>
     set (order s) = dom (db s) \<and> distinct (order s) \<and>
     distinct (tagged_for_removal s) \<and> set (tagged_for_removal s) \<subseteq> set (order s)"

text \<open>Two stores at capacity 2, the first with both keys tagged (\<open>b\<close> before \<open>a\<close>).\<close>

definition full_store :: "nat store" where
  "full_store = \<lparr>db = [''a'' \<mapsto> 1, ''b'' \<mapsto> 2], order = [''a'', ''b''],
     tagged_for_removal = [''b'', ''a''], max_size = 2\<rparr>"

definition full_untagged_store :: "nat store" where
  "full_untagged_store = \<lparr>db = [''a'' \<mapsto> 1, ''b'' \<mapsto> 2], order = [''a'', ''b''],
     tagged_for_removal = [], max_size = 2\<rparr>"


section \<open>Host validation and the rejection response\<close>

text \<open>
  The host configuration as \<open>request_validator.py\<close> reads it. A configuration value
  that the code tests with \<open>isinstance(v, int)\<close> is an integer (Python's booleans are
  integers too: 0 and 1), \<open>None\<close>, or something else.
\<close>

datatype cfg_value = IntVal int | NoneVal | OtherVal

record command =
  cmd_name :: string
  cmd_type :: "string option"
  cmd_command :: "string option"
  cmd_url :: "string option"
  cmd_timeout :: "cfg_value option"
  cmd_async_timeout :: "cfg_value option"

record host_entry =
  host_mac :: "string option"
  host_commands :: "command list"

text \<open>The dictionaries \<open>{"hostname": h, "error": msg}\<close> that validation collects.\<close>

record host_error =
  hostname :: string
  error :: string

text \<open>The first component of an entry: the host entry (wakeup) or the command.\<close>

datatype entry_config = HostConfig host_entry | CommandConfig command

type_synonym entry_data = "entry_config \<times> int \<times> bool"

text \<open>Python's truth value of an optional string: \<open>None\<close> and \<open>""\<close> are false.\<close>

definition falsy :: "string option \<Rightarrow> bool" where
  "falsy v = (v = None \<or> v = Some [])"

text \<open>\<open>d[k] = v\<close> on a dictionary kept in insertion order: a present key keeps its
  place, a new key goes last.\<close>

fun dict_set :: "'k \<Rightarrow> 'v \<Rightarrow> ('k \<times> 'v) list \<Rightarrow> ('k \<times> 'v) list" where
  "dict_set k v [] = [(k, v)]"
| "dict_set k v ((k', v') # kvs) =
     (if k' = k then (k, v) # kvs else (k', v') # dict_set k v kvs)"

definition validate_wakeup_host :: "string \<Rightarrow> host_entry \<Rightarrow> host_error option" where
  "validate_wakeup_host h host =
     (if falsy (host_mac host) then Some \<lparr>hostname = h, error = ''MAC not configured''\<rparr>
      else None)"

definition validate_shell_command ::
  "command \<Rightarrow> string \<Rightarrow> host_error option \<times> entry_data option" where
  "validate_shell_command cmd h =
     (if falsy (cmd_command cmd) then
        (Some \<lparr>hostname = h, error = ''Invalid command definition''\<rparr>, None)
      else case cmd_timeout cmd of
        Some t \<Rightarrow>
          (case t of
             IntVal timeout \<Rightarrow>
               if timeout < 0 then (Some \<lparr>hostname = h, error = ''Invalid timeout''\<rparr>, None)
               else (None, Some (CommandConfig cmd, timeout, True))
           | _ \<Rightarrow> (Some \<lparr>hostname = h, error = ''Invalid timeout''\<rparr>, None))
      | None \<Rightarrow>
          (case cmd_async_timeout cmd of
             Some a \<Rightarrow>
               (case a of
                  IntVal async_timeout \<Rightarrow>
                    if async_timeout < -1
                    then (Some \<lparr>hostname = h, error = ''Invalid async_timeout''\<rparr>, None)
                    else (None, Some (CommandConfig cmd, async_timeout, False))
                | _ \<Rightarrow> (Some \<lparr>hostname = h, error = ''Invalid async_timeout''\<rparr>, None))
           | None \<Rightarrow>
               (Some \<lparr>hostname = h, error = ''Missing timeout or async_timeout''\<rparr>, None)))"

definition validate_http_command ::
  "command \<Rightarrow> string \<Rightarrow> host_error option \<times> entry_data option" where
  "validate_http_command cmd h =
     (if falsy (cmd_url cmd) then
        (Some \<lparr>hostname = h, error = ''Invalid HTTP command: missing url''\<rparr>, None)
      else
        (let timeout = (case cmd_timeout cmd of None \<Rightarrow> IntVal 30 | Some t \<Rightarrow> t);
             async_timeout = (case cmd_async_timeout cmd of None \<Rightarrow> NoneVal | Some a \<Rightarrow> a)
         in if async_timeout \<noteq> NoneVal then
              (case async_timeout of
                 IntVal a \<Rightarrow>
                   if a < -1 then (Some \<lparr>hostname = h, error = ''Invalid async_timeout''\<rparr>, None)
                   else (None, Some (CommandConfig cmd, a, False))
               | _ \<Rightarrow> (Some \<lparr>hostname = h, error = ''Invalid async_timeout''\<rparr>, None))
            else
              (case timeout of
                 IntVal t \<Rightarrow>
                   if t < 0 then (Some \<lparr>hostname = h, error = ''Invalid timeout''\<rparr>, None)
                   else (None, Some (CommandConfig cmd, t, True))
               | _ \<Rightarrow> (Some \<lparr>hostname = h, error = ''Invalid timeout''\<rparr>, None))))"

text \<open>\<open>{cmd["name"]: cmd for cmd in commands}.get(command_name)\<close>: of two commands
  with one name the later one is kept.\<close>

definition find_command :: "command list \<Rightarrow> string option \<Rightarrow> command option" where
  "find_command cmds command_name =
     (case command_name of
        None \<Rightarrow> None
      | Some n \<Rightarrow> map_of (rev (map (\<lambda>c. (cmd_name c, c)) cmds)) n)"

definition validate_command_host ::
  "string \<Rightarrow> host_entry \<Rightarrow> string option \<Rightarrow> host_error option \<times> entry_data option" where
  "validate_command_host h host command_name =
     (case find_command (host_commands host) command_name of
        None \<Rightarrow> (Some \<lparr>hostname = h, error = ''Command not allowed''\<rparr>, None)
      | Some cmd \<Rightarrow>
          (let ty = (case cmd_type cmd of None \<Rightarrow> ''shell'' | Some t \<Rightarrow> t)
           in if ty = ''http'' then validate_http_command cmd h
              else if ty = ''shell'' then validate_shell_command cmd h
              else (Some \<lparr>hostname = h, error = ''Unknown command type: '' @ ty\<rparr>, None)))"

text \<open>\<open>validate_hosts\<close>: the loop over the requested hosts, with the two accumulators.
  (\<open>validate_command_host\<close> returns an error or the command data, never neither:
  the last case of the loop does not arise.)\<close>

fun validate_hosts_loop ::
  "string list \<Rightarrow> string \<Rightarrow> string option \<Rightarrow> (string \<rightharpoonup> host_entry) \<Rightarrow>
   host_error list \<Rightarrow> (string \<times> entry_data) list \<Rightarrow>
   host_error list \<times> (string \<times> entry_data) list" where
  "validate_hosts_loop [] action command_name hosts_config errors entries = (errors, entries)"
| "validate_hosts_loop (h # hs) action command_name hosts_config errors entries =
     (case hosts_config h of
        None \<Rightarrow>
          validate_hosts_loop hs action command_name hosts_config
            (errors @ [\<lparr>hostname = h, error = ''Host not allowed''\<rparr>]) entries
      | Some host \<Rightarrow>
          if action = ''wakeup'' then
            (case validate_wakeup_host h host of
               Some e \<Rightarrow> validate_hosts_loop hs action command_name hosts_config (errors @ [e]) entries
             | None \<Rightarrow>
                 validate_hosts_loop hs action command_name hosts_config errors
                   (dict_set h (HostConfig host, -1, False) entries))
          else
            (case validate_command_host h host command_name of
               (Some e, _) \<Rightarrow>
                 validate_hosts_loop hs action command_name hosts_config (errors @ [e]) entries
             | (None, Some cmd_data) \<Rightarrow>
                 validate_hosts_loop hs action command_name hosts_config errors
                   (dict_set h cmd_data entries)
             | (None, None) \<Rightarrow>
                 validate_hosts_loop hs action command_name hosts_config errors entries))"

definition validate_hosts ::
  "string list \<Rightarrow> string \<Rightarrow> string option \<Rightarrow> (string \<rightharpoonup> host_entry) \<Rightarrow>
   host_error list \<times> (string \<times> entry_data) list" where
  "validate_hosts hosts action command_name hosts_config =
     validate_hosts_loop hosts action command_name hosts_config [] []"

text \<open>
  \<open>Handler._handle_validation_errors\<close>: the status code and the body
  \<open>{"errors": errors}\<close> it sends.
\<close>

definition error_types :: "string list" where
  "error_types = [''Host not allowed'', ''MAC not configured'', ''Command not allowed'']"

definition handle_validation_errors :: "host_error list \<Rightarrow> int \<times> host_error list" where
  "handle_validation_errors errors =
     (let code = (if \<exists>e \<in> set errors. error e \<in> set error_types then 403 else 500)
      in (code, errors))"

text \<open>The validation step of \<open>do_POST\<close> for a command that is not an execution plan:
  the response sent when validation reports errors, \<open>None\<close> when the dispatch goes on.\<close>

definition post_validation_response ::
  "string list \<Rightarrow> string \<Rightarrow> string option \<Rightarrow> (string \<rightharpoonup> host_entry) \<Rightarrow>
   (int \<times> host_error list) option" where
  "post_validation_response hosts action command_name hosts_config =
     (let (errors, entries) = validate_hosts hosts action command_name hosts_config
      in if errors \<noteq> [] then Some (handle_validation_errors errors) else None)"

text \<open>A configuration with one host, whose command \<open>backup\<close> has a negative timeout.\<close>

definition backup_command :: command where
  "backup_command = \<lparr>cmd_name = ''backup'', cmd_type = Some ''shell'',
     cmd_command = Some ''rsync'', cmd_url = None, cmd_timeout = Some (IntVal (-5)),
     cmd_async_timeout = None\<rparr>"

definition example_hosts_config :: "string \<rightharpoonup> host_entry" where
  "example_hosts_config =
     [''nas'' \<mapsto> \<lparr>host_mac = Some ''11:22:33:44:55:66'', host_commands = [backup_command]\<rparr>]"


section \<open>Task records and their updates\<close>

text \<open>
  A task is the dictionary that \<open>TaskExecutor.create_task\<close> stores. The entries of its
  \<open>success\<close>, \<open>running\<close> and \<open>errors\<close> lists are dictionaries with the optional keys
  \<open>hostname\<close>, \<open>error\<close>, \<open>output\<close> and \<open>response_code\<close>. The key \<open>plan_tasks\<close> is absent, the
  list that \<open>create_task\<close> stores for an execution plan, or the dictionary from the
  task index (as a string) to status and timestamp that the scheduler writes.
\<close>

record entry =
  entry_hostname :: "string option"
  entry_error :: "string option"
  entry_output :: "string option"
  entry_response_code :: "int option"

record plan_task_status =
  status :: string
  timestamp :: int

datatype plan_tasks_value =
    PlanTasksList "plan_task_status list"
  | PlanTasksDict "(string \<times> plan_task_status) list"

record task =
  task_id :: string
  start_timestamp :: int
  end_timestamp :: "int option"
  task_command :: "string option"
  execution_plan :: "string option"
  plan_tasks :: "plan_tasks_value option"
  success :: "entry list"
  running :: "entry list"
  errors :: "entry list"

text \<open>\<open>{"hostname": h}\<close>.\<close>

definition hostname_dict :: "string \<Rightarrow> entry" where
  "hostname_dict h = \<lparr>entry_hostname = Some h, entry_error = None, entry_output = None,
     entry_response_code = None\<rparr>"

text \<open>\<open>str(n)\<close> for Python integers.\<close>

definition digit_char :: "nat \<Rightarrow> char" where
  "digit_char d = char_of (48 + d)"

fun str_nat :: "nat \<Rightarrow> string" where
  "str_nat n = (if n < 10 then [digit_char n] else str_nat (n div 10) @ [digit_char (n mod 10)])"

declare str_nat.simps [simp del]

definition str_int :: "int \<Rightarrow> string" where
  "str_int i = (if i < 0 then CHR ''-'' # str_nat (nat (- i)) else str_nat (nat i))"

text \<open>
  \<open>TaskExecutor.create_task\<close>; the fresh UUID is a parameter. An execution plan gets
  \<open>plan_tasks = []\<close>.
\<close>

definition create_task ::
  "task store \<Rightarrow> string \<Rightarrow> string option \<Rightarrow> (string \<times> 'e) list \<Rightarrow> string option \<Rightarrow> int \<Rightarrow>
   error option \<times> task store" where
  "create_task s new_id command_name entries plan now =
     set_item s new_id
       \<lparr>task_id = new_id, start_timestamp = now, end_timestamp = None,
        task_command = command_name, execution_plan = plan,
        plan_tasks = (if falsy plan then None else Some (PlanTasksList [])),
        success = [], running = map (\<lambda>(h, _). hostname_dict h) entries, errors = []\<rparr>"

text \<open>The block that ends every completion update:
  \<^verbatim>\<open>if not task["running"]:
      if "end_timestamp" not in task: task["end_timestamp"] = now
      self.db.tag_for_removal(task_id)
  self.db[task_id] = task\<close>\<close>

definition stamp_end :: "task \<Rightarrow> int \<Rightarrow> task" where
  "stamp_end t now = (if end_timestamp t = None then t\<lparr>end_timestamp := Some now\<rparr> else t)"

definition finish_and_store :: "task store \<Rightarrow> string \<Rightarrow> task \<Rightarrow> int \<Rightarrow> error option \<times> task store" where
  "finish_and_store s tid t now =
     (if running t = [] then set_item (tag_for_removal s tid) tid (stamp_end t now)
      else set_item s tid t)"

text \<open>\<open>if hostname_dict in running: running.remove(hostname_dict)\<close>.\<close>

definition drop_running :: "string \<Rightarrow> task \<Rightarrow> task" where
  "drop_running h t = t\<lparr>running := remove1 (hostname_dict h) (running t)\<rparr>"

datatype field = Success | Errors

definition append_field :: "field \<Rightarrow> entry \<Rightarrow> task \<Rightarrow> task" where
  "append_field f v t =
     (case f of Success \<Rightarrow> t\<lparr>success := success t @ [v]\<rparr>
              | Errors \<Rightarrow> t\<lparr>errors := errors t @ [v]\<rparr>)"

text \<open>\<open>TaskExecutor._atomic_task_update\<close> (wakeup and synchronous shell completion).\<close>

definition atomic_task_update ::
  "task store \<Rightarrow> string \<Rightarrow> field \<Rightarrow> entry \<Rightarrow> int \<Rightarrow> error option \<times> task store" where
  "atomic_task_update s tid f v now =
     (case db s tid of
        None \<Rightarrow> (Some KeyError, s)
      | Some t \<Rightarrow>
          (case entry_hostname v of
             None \<Rightarrow> (Some KeyError, s)
           | Some h \<Rightarrow> finish_and_store s tid (append_field f v (drop_running h t)) now))"

text \<open>\<open>HTTPProcess._update_tasks\<close> (HTTP completion).\<close>

definition http_update_tasks ::
  "task store \<Rightarrow> string \<Rightarrow> string \<Rightarrow> bool \<Rightarrow> bool \<Rightarrow> string option \<Rightarrow> string option \<Rightarrow>
   int option \<Rightarrow> int \<Rightarrow> error option \<times> task store" where
  "http_update_tasks s tid h aborted ok error_msg out response now =
     (case db s tid of
        None \<Rightarrow> (None, s)
      | Some t \<Rightarrow>
          (let t1 =
             (if aborted then
                append_field Errors ((hostname_dict h)\<lparr>entry_error := Some ''Task aborted''\<rparr>) t
              else if ok then
                append_field Success
                  ((hostname_dict h)\<lparr>entry_output := out, entry_response_code := response\<rparr>) t
              else
                append_field Errors
                  ((hostname_dict h)\<lparr>entry_error :=
                      Some (if falsy error_msg then ''Unknown error'' else the error_msg),
                    entry_output := out, entry_response_code := response\<rparr>) t)
           in finish_and_store s tid (drop_running h t1) now))"

text \<open>\<open>StreamableProcess._update_task\<close> (asynchronous shell completion); \<open>proc\<close> is
  \<open>None\<close> when no process was started, else its return code (\<open>None\<close> while unset).\<close>

definition str_returncode :: "int option \<Rightarrow> string" where
  "str_returncode rc = (case rc of None \<Rightarrow> ''None'' | Some n \<Rightarrow> str_int n)"

definition process_update_task ::
  "task store \<Rightarrow> string \<Rightarrow> string \<Rightarrow> string option \<Rightarrow> bool \<Rightarrow> int option option \<Rightarrow> int \<Rightarrow>
   error option \<times> task store" where
  "process_update_task s tid h err aborted proc now =
     (case db s tid of
        None \<Rightarrow> (None, s)
      | Some t \<Rightarrow>
          (let e = (\<lambda>msg. (hostname_dict h)\<lparr>entry_error := Some msg\<rparr>);
               t1 =
             (if \<not> falsy err then append_field Errors (e (the err)) t
              else if aborted then append_field Errors (e ''Aborted'') t
              else if proc = Some (Some 0) then append_field Success (hostname_dict h) t
              else case proc of
                     Some rc \<Rightarrow> append_field Errors (e (''Exit code '' @ str_returncode rc)) t
                   | None \<Rightarrow> append_field Errors (e ''Process failed to start'') t)
           in finish_and_store s tid (drop_running h t1) now))"

text \<open>\<open>TaskScheduler._update_plan_task_status\<close>: storing under a string key raises
  \<open>TypeError\<close> when \<open>plan_tasks\<close> is a list.\<close>

definition update_plan_task_status ::
  "task store \<Rightarrow> string \<Rightarrow> nat \<Rightarrow> string \<Rightarrow> int \<Rightarrow> error option \<times> task store" where
  "update_plan_task_status s parent task_idx st now =
     (case db s parent of
        None \<Rightarrow> (None, s)
      | Some t \<Rightarrow>
          (case (case plan_tasks t of None \<Rightarrow> PlanTasksDict [] | Some p \<Rightarrow> p) of
             PlanTasksList _ \<Rightarrow> (Some TypeError, s)
           | PlanTasksDict d \<Rightarrow>
               set_item s parent
                 (t\<lparr>plan_tasks := Some (PlanTasksDict
                      (dict_set (str_nat task_idx) \<lparr>status = st, timestamp = now\<rparr> d))\<rparr>)))"

text \<open>\<open>TaskScheduler._update_parent_task_progress\<close>: a list has no \<open>values()\<close>.\<close>

definition update_parent_task_progress :: "task store \<Rightarrow> string \<Rightarrow> error option \<times> task store" where
  "update_parent_task_progress s parent =
     (case db s parent of
        None \<Rightarrow> (None, s)
      | Some t \<Rightarrow>
          (case (case plan_tasks t of None \<Rightarrow> PlanTasksDict [] | Some p \<Rightarrow> p) of
             PlanTasksList _ \<Rightarrow> (Some AttributeError, s)
           | PlanTasksDict d \<Rightarrow>
               (let completed = length (filter (\<lambda>(_, pt). status pt = ''completed'') d);
                    total = length d
                in set_item s parent
                     (t\<lparr>running := [hostname_dict
                         (''Plan progress: '' @ str_nat completed @ ''/'' @ str_nat total)]\<rparr>))))"

text \<open>The end of \<open>TaskScheduler._execute_plan_sync\<close>, after the interpreter loop:
  \<^verbatim>\<open>task = self.db.get(parent_task_id)
  if task and not task.get("running"):
      if "end_timestamp" not in task: task["end_timestamp"] = now
      self.db.tag_for_removal(parent_task_id)
      self.db[parent_task_id] = task\<close>\<close>

definition plan_loop_end :: "task store \<Rightarrow> string \<Rightarrow> int \<Rightarrow> error option \<times> task store" where
  "plan_loop_end s parent now =
     (case db s parent of
        None \<Rightarrow> (None, s)
      | Some t \<Rightarrow>
          if running t = [] then set_item (tag_for_removal s parent) parent (stamp_end t now)
          else (None, s))"

text \<open>\<open>recover_dropped_tasks\<close> of \<open>main_utils.py\<close>, for one key of the store: the
  store is written first and the key tagged afterwards.\<close>

definition recover_dropped_task :: "task store \<Rightarrow> string \<Rightarrow> int \<Rightarrow> error option \<times> task store" where
  "recover_dropped_task s k now =
     (case db s k of
        None \<Rightarrow> (None, s)
      | Some v \<Rightarrow>
          if running v = [] then (None, s)
          else
            (let v1 = v\<lparr>errors := errors v @
                         map (\<lambda>item. item\<lparr>entry_error := Some ''Process dropped during restart''\<rparr>)
                           (running v),
                       running := []\<rparr>;
                 (err, s1) = set_item s k (stamp_end v1 now)
             in case err of
                  Some e \<Rightarrow> (Some e, s1)
                | None \<Rightarrow> (None, tag_for_removal s1 k)))"

text \<open>The invariant (b) of a task record.\<close>

definition end_iff_idle :: "task \<Rightarrow> bool" where
  "end_iff_idle t \<longleftrightarrow> (end_timestamp t \<noteq> None) = (running t = [])"

text \<open>A wakeup of the single host \<open>nas\<close>: the store after \<open>create_task\<close>.\<close>

definition wakeup_store :: "task store" where
  "wakeup_store =
     snd (create_task (empty_store 100) ''t1'' None [(''nas'', ())] None 1000)"

text \<open>A task that fronts the execution plan \<open>deploy\<close>, as \<open>do_POST\<close> creates it.\<close>

definition plan_store :: "task store" where
  "plan_store =
     snd (create_task (empty_store 100) ''p1'' (Some ''deploy'')
            [(''plan_deploy'', ())] (Some ''deploy'') 1000)"

text \<open>A parent task of a plan with no running entry left.\<close>

definition idle_plan_store :: "task store" where
  "idle_plan_store =
     \<lparr>db = [''p1'' \<mapsto> \<lparr>task_id = ''p1'', start_timestamp = 1000, end_timestamp = None,
        task_command = Some ''deploy'', execution_plan = Some ''deploy'',
        plan_tasks = Some (PlanTasksDict []), success = [], running = [], errors = []\<rparr>],
      order = [''p1''], tagged_for_removal = [], max_size = 100\<rparr>"


section \<open>The execution plan scheduler\<close>

text \<open>
  A plan task as \<open>task_scheduler.py\<close> reads it (the integer fields hold what \<open>int(...)\<close>
  returns), and the result that \<open>_execute_plan_task\<close> records for a task index.
\<close>

record plan_task =
  pt_command :: string
  pt_hostnames :: "string list"
  execute_after :: "int option"
  if_previous_command :: "int option"
  if_previous_command_result :: "string option"
  if_previous_output_contains :: "string option"
  on_success_jump_to :: "int option"
  on_error_jump_to :: "int option"

record plan_result =
  result_success :: "entry list"
  result_errors :: "entry list"
  result_running :: "entry list"

text \<open>\<open>sub in s\<close> on strings, and \<open>sep.join(xs)\<close>.\<close>

definition starts_with :: "string \<Rightarrow> string \<Rightarrow> bool" where
  "starts_with s p = (take (length p) s = p)"

fun str_contains :: "string \<Rightarrow> string \<Rightarrow> bool" where
  "str_contains [] p = (p = [])"
| "str_contains (c # cs) p = (starts_with (c # cs) p \<or> str_contains cs p)"

fun str_join :: "string \<Rightarrow> string list \<Rightarrow> string" where
  "str_join sep [] = []"
| "str_join sep [x] = x"
| "str_join sep (x # y # ys) = x @ sep @ str_join sep (y # ys)"

text \<open>The \<open>output\<close> fields of the entries that have one, in order.\<close>

definition outputs_of :: "entry list \<Rightarrow> string list" where
  "outputs_of es = List.map_filter entry_output es"

definition combined_output :: "plan_result \<Rightarrow> string" where
  "combined_output r =
     str_join [CHR 0x0A] (outputs_of (result_success r) @ outputs_of (result_errors r))"

text \<open>\<open>TaskScheduler._check_conditions\<close>.\<close>

definition check_conditions :: "plan_task \<Rightarrow> (int \<rightharpoonup> plan_result) \<Rightarrow> int \<Rightarrow> bool" where
  "check_conditions pt task_results current_idx =
     (case if_previous_command pt of
        None \<Rightarrow> True
      | Some prev_idx \<Rightarrow>
          (case (if prev_idx \<ge> current_idx then None else task_results prev_idx) of
             None \<Rightarrow> False
           | Some prev_result \<Rightarrow>
               if \<not> falsy (if_previous_command_result pt) \<and>
                  (let condition = the (if_previous_command_result pt) in
                     condition = ''all_success'' \<and> length (result_errors prev_result) > 0
                   \<or> condition = ''any_success'' \<and> length (result_success prev_result) = 0
                   \<or> condition = ''all_error'' \<and> length (result_success prev_result) > 0
                   \<or> condition = ''any_error'' \<and> length (result_errors prev_result) = 0)
               then False
               else if \<not> falsy (if_previous_output_contains pt) \<and>
                  \<not> str_contains (combined_output prev_result)
                       (the (if_previous_output_contains pt))
               then False
               else True))"

text \<open>The predicates of \<open>if_previous_command_result\<close> in the words of the
  specification: \<open>all_success\<close> is no errors, \<open>any_success\<close> at least one success,
  \<open>all_error\<close> no success, \<open>any_error\<close> at least one error.\<close>

definition condition_holds :: "string \<Rightarrow> plan_result \<Rightarrow> bool" where
  "condition_holds c r =
     (if c = ''all_success'' then result_errors r = []
      else if c = ''any_success'' then result_success r \<noteq> []
      else if c = ''all_error'' then result_success r = []
      else if c = ''any_error'' then result_errors r \<noteq> []
      else True)"

text \<open>
  One iteration of the loop of \<open>_execute_plan_sync\<close> for a task item, up to the
  dispatch: the task is marked \<open>scheduled\<close>; if its conditions are not met it is marked
  \<open>skipped\<close> and the loop continues at \<open>idx + 1\<close>; otherwise the iteration goes on to
  the barrier and the dispatch. An exception leaves the loop.
\<close>

datatype loop_head = Raise error "task store" | Continue nat "task store" | Dispatch "task store"

definition plan_loop_head ::
  "task store \<Rightarrow> string \<Rightarrow> plan_task \<Rightarrow> nat \<Rightarrow> (int \<rightharpoonup> plan_result) \<Rightarrow> nat \<Rightarrow> int \<Rightarrow> int \<Rightarrow>
   loop_head" where
  "plan_loop_head s parent pt task_idx task_results idx t_scheduled t_skipped =
     (case update_plan_task_status s parent task_idx ''scheduled'' t_scheduled of
        (Some e, s1) \<Rightarrow> Raise e s1
      | (None, s1) \<Rightarrow>
          if \<not> check_conditions pt task_results (int task_idx) then
            (case update_plan_task_status s1 parent task_idx ''skipped'' t_skipped of
               (Some e, s2) \<Rightarrow> Raise e s2
             | (None, s2) \<Rightarrow> Continue (idx + 1) s2)
          else Dispatch s1)"

text \<open>The status recorded for a task index in a parent task.\<close>

definition plan_task_status_of :: "task store \<Rightarrow> string \<Rightarrow> nat \<Rightarrow> string option" where
  "plan_task_status_of s parent task_idx =
     (case db s parent of
        None \<Rightarrow> None
      | Some t \<Rightarrow>
          (case plan_tasks t of
             Some (PlanTasksDict d) \<Rightarrow> map_option status (map_of d (str_nat task_idx))
           | _ \<Rightarrow> None))"

text \<open>A plan task that runs only if task 0 succeeded everywhere.\<close>

definition dependent_task :: plan_task where
  "dependent_task = \<lparr>pt_command = ''restart'', pt_hostnames = [''nas''], execute_after = None,
     if_previous_command = Some 0, if_previous_command_result = Some ''all_success'',
     if_previous_output_contains = None, on_success_jump_to = None, on_error_jump_to = None\<rparr>"


section \<open>Strings, bytes and the Wake-on-LAN packet\<close>

type_synonym byte = "8 word"

text \<open>
  \<open>s.replace(old, new)\<close>: the occurrences of \<open>old\<close> are replaced from the left and do
  not overlap; an empty \<open>old\<close> matches before every character and at the end. The
  counter of \<open>replace_from\<close> is the number of characters of a match still to be skipped.
\<close>

fun replace_from :: "string \<Rightarrow> string \<Rightarrow> nat \<Rightarrow> string \<Rightarrow> string" where
  "replace_from old new skip [] = []"
| "replace_from old new skip (c # cs) =
     (if skip > 0 then replace_from old new (skip - 1) cs
      else if starts_with (c # cs) old then new @ replace_from old new (length old - 1) cs
      else c # replace_from old new 0 cs)"

definition str_replace :: "string \<Rightarrow> string \<Rightarrow> string \<Rightarrow> string" where
  "str_replace s old new =
     (if old = [] then new @ concat (map (\<lambda>c. c # new) s) else replace_from old new 0 s)"

text \<open>\<open>s.lower()\<close> and \<open>s.upper()\<close> on ASCII letters.\<close>

definition to_lower :: "char \<Rightarrow> char" where
  "to_lower c = (let n = (of_char c :: nat) in if 65 \<le> n \<and> n \<le> 90 then char_of (n + 32) else c)"

definition lower :: "string \<Rightarrow> string" where
  "lower s = map to_lower s"

text \<open>The value of a hexadecimal digit, and \<open>bytes.fromhex\<close>: ASCII whitespace is
  skipped before a byte, then two hexadecimal digits are read; anything else raises
  \<open>ValueError\<close>.\<close>

definition hexval :: "char \<Rightarrow> nat option" where
  "hexval c =
     (let n = (of_char c :: nat) in
      if 48 \<le> n \<and> n \<le> 57 then Some (n - 48)
      else if 97 \<le> n \<and> n \<le> 102 then Some (n - 87)
      else if 65 \<le> n \<and> n \<le> 70 then Some (n - 55)
      else None)"

definition is_space :: "char \<Rightarrow> bool" where
  "is_space c = ((of_char c :: nat) \<in> {9, 10, 11, 12, 13, 32})"

fun fromhex :: "string \<Rightarrow> byte list option" where
  "fromhex [] = Some []"
| "fromhex (c # cs) =
     (if is_space c then fromhex cs
      else case hexval c of
        None \<Rightarrow> None
      | Some hi \<Rightarrow>
          (case cs of
             [] \<Rightarrow> None
           | d # ds \<Rightarrow>
               (case hexval d of
                  None \<Rightarrow> None
                | Some lo \<Rightarrow> map_option ((#) (of_nat (hi * 16 + lo))) (fromhex ds))))"

text \<open>What \<open>send_wol\<close> hands to the socket: one \<open>sendto\<close> on a UDP socket.\<close>

record datagram =
  packet :: "byte list"
  dest_host :: string
  dest_port :: nat
  so_broadcast :: bool

definition send_wol :: "string \<Rightarrow> error + datagram" where
  "send_wol mac =
     (let mac1 = lower (str_replace (str_replace mac '':'' '''') ''-'' '''') in
      case fromhex (concat (replicate 6 ''FF'') @ concat (replicate 16 mac1)) of
        None \<Rightarrow> Inl ValueError
      | Some pkt \<Rightarrow>
          Inr \<lparr>packet = pkt, dest_host = ''255.255.255.255'', dest_port = 9,
               so_broadcast = True\<rparr>)"

text \<open>The reading of a MAC address on the side of the specification: the separators
  \<open>:\<close> and \<open>-\<close> are dropped, and each pair of hexadecimal digits, in either case, is one
  byte.\<close>

definition mac_digits :: "string \<Rightarrow> string" where
  "mac_digits mac = filter (\<lambda>c. c \<noteq> CHR '':'' \<and> c \<noteq> CHR ''-'') mac"

definition is_hex :: "char \<Rightarrow> bool" where
  "is_hex c = (hexval c \<noteq> None)"

definition hex_digit :: "char \<Rightarrow> nat" where
  "hex_digit c = (case hexval c of None \<Rightarrow> 0 | Some v \<Rightarrow> v)"

fun hex_pairs :: "string \<Rightarrow> byte list" where
  "hex_pairs (a # b # cs) = of_nat (hex_digit a * 16 + hex_digit b) # hex_pairs cs"
| "hex_pairs _ = []"


section \<open>The WebSocket frame codec\<close>

text \<open>
  The socket is the list of bytes still to be read; \<open>sock.recv(n)\<close> returns its first
  \<open>n\<close> bytes (fewer when fewer are left, none at the end of the stream).
\<close>

definition recv :: "nat \<Rightarrow> byte list \<Rightarrow> byte list \<times> byte list" where
  "recv n sock = (take n sock, drop n sock)"

text \<open>Big-endian integers: \<open>struct.pack(">H", n)\<close> and \<open>struct.pack(">Q", n)\<close> raise
  \<open>struct.error\<close> when \<open>n\<close> does not fit; \<open>struct.unpack\<close> reads them back.\<close>

fun be_bytes :: "nat \<Rightarrow> nat \<Rightarrow> byte list" where
  "be_bytes 0 n = []"
| "be_bytes (Suc k) n = of_nat (n div 256 ^ k) # be_bytes k n"

definition be_nat :: "byte list \<Rightarrow> nat" where
  "be_nat bs = foldl (\<lambda>acc b. acc * 256 + unat b) 0 bs"

definition struct_pack :: "nat \<Rightarrow> nat \<Rightarrow> byte list option" where
  "struct_pack k n = (if n < 256 ^ k then Some (be_bytes k n) else None)"

text \<open>
  \<open>WebSocketManager._send_frame\<close> for a payload of bytes: the bytes passed to
  \<open>sendall\<close>, or \<open>None\<close> when an exception makes it return \<open>False\<close> (\<open>bytes([v])\<close>
  raises \<open>ValueError\<close> for \<open>v > 255\<close>).
\<close>

definition send_frame :: "byte list \<Rightarrow> nat \<Rightarrow> byte list option" where
  "send_frame payload opcode =
     (let len = length payload in
      if 0x80 OR opcode \<ge> 256 then None
      else
        (let header = [of_nat (0x80 OR opcode) :: byte] in
         if len < 126 then Some (header @ [of_nat len] @ payload)
         else if len < 65536 then
           (case struct_pack 2 len of
              None \<Rightarrow> None
            | Some l \<Rightarrow> Some (header @ [126] @ l @ payload))
         else
           (case struct_pack 8 len of
              None \<Rightarrow> None
            | Some l \<Rightarrow> Some (header @ [127] @ l @ payload))))"

text \<open>The loop that reads the payload:
  \<^verbatim>\<open>while len(payload) < length:
      chunk = sock.recv(min(4096, length - len(payload)))
      if not chunk: return None, None, None
      payload += chunk\<close>\<close>

function recv_payload :: "nat \<Rightarrow> byte list \<Rightarrow> byte list \<Rightarrow> (byte list \<times> byte list) option" where
  "recv_payload len payload sock =
     (if length payload < len then
        (if take (min 4096 (len - length payload)) sock = [] then None
         else recv_payload len (payload @ take (min 4096 (len - length payload)) sock)
                (drop (min 4096 (len - length payload)) sock))
      else Some (payload, sock))"
  by pat_completeness auto
termination
  by (relation "measure (\<lambda>(len, payload, sock). len - length payload)")
    (auto simp: min_def neq_Nil_conv)

declare recv_payload.simps [simp del]

text \<open>\<open>bytes(b ^ mask_key[i % 4] for i, b in enumerate(payload))\<close>; a key shorter than
  the indices used raises \<open>IndexError\<close>.\<close>

definition xor_mask :: "byte list \<Rightarrow> byte list \<Rightarrow> byte list" where
  "xor_mask mask_key payload =
     map (\<lambda>(i, b). b XOR mask_key ! (i mod 4)) (enumerate 0 payload)"

definition unmask :: "byte list \<Rightarrow> byte list \<Rightarrow> byte list option" where
  "unmask mask_key payload =
     (if min (length payload) 4 \<le> length mask_key then Some (xor_mask mask_key payload)
      else None)"

text \<open>The extended length field that follows the 7-bit length \<open>n\<close>.\<close>

definition recv_length :: "nat \<Rightarrow> byte list \<Rightarrow> (nat \<times> byte list) option" where
  "recv_length n sock =
     (if n = 126 then
        (let (length_data, sock1) = recv 2 sock in
         if length length_data < 2 then None else Some (be_nat length_data, sock1))
      else if n = 127 then
        (let (length_data, sock1) = recv 8 sock in
         if length length_data < 8 then None else Some (be_nat length_data, sock1))
      else Some (n, sock))"

text \<open>
  \<open>WebSocketManager._recv_frame\<close>: \<open>(fin, opcode, payload)\<close> and the rest of the
  stream, or \<open>None\<close> for the result \<open>(None, None, None)\<close>.
\<close>

definition recv_frame :: "byte list \<Rightarrow> ((nat \<times> nat \<times> byte list) \<times> byte list) option" where
  "recv_frame sock =
     (let (header, sock1) = recv 2 sock in
      if length header < 2 then None
      else
        (let b1 = unat (header ! 0); b2 = unat (header ! 1);
             fin = drop_bit 7 b1 AND 1;
             opcode = b1 AND 0x0f;
             masked = drop_bit 7 b2 AND 1
         in case recv_length (b2 AND 0x7f) sock1 of
              None \<Rightarrow> None
            | Some (len, sock2) \<Rightarrow>
                (let (mask_key, sock3) = (if masked \<noteq> 0 then recv 4 sock2 else ([], sock2))
                 in case recv_payload len [] sock3 of
                      None \<Rightarrow> None
                    | Some (payload, sock4) \<Rightarrow>
                        if masked \<noteq> 0 \<and> mask_key \<noteq> [] then
                          (case unmask mask_key payload of
                             None \<Rightarrow> None
                           | Some p \<Rightarrow> Some ((fin, opcode, p), sock4))
                        else Some ((fin, opcode, payload), sock4))))"

text \<open>The length field of a frame (RFC 6455, section 5.2): the 7-bit length, with the
  mask bit \<open>m\<close> (0 or 128) in the same byte, and the extended length.\<close>

definition length_field :: "nat \<Rightarrow> nat \<Rightarrow> byte list" where
  "length_field m len =
     (if len < 126 then [of_nat (m + len)]
      else if len < 65536 then of_nat (m + 126) # be_bytes 2 len
      else of_nat (m + 127) # be_bytes 8 len)"

text \<open>A masked frame as a client sends it: FIN set, the opcode, the mask bit, the
  length, the four bytes of the masking key, and the payload XOR-ed with the key.\<close>

definition client_frame :: "nat \<Rightarrow> byte list \<Rightarrow> byte list \<Rightarrow> byte list" where
  "client_frame opcode mask_key payload =
     of_nat (128 + opcode) # length_field 128 (length payload) @ mask_key @
     xor_mask mask_key payload"


section \<open>WebSocket tokens\<close>

text \<open>\<open>s.split(sep)\<close> for a separator of one character.\<close>

fun str_split :: "char \<Rightarrow> string \<Rightarrow> string list" where
  "str_split sep [] = [[]]"
| "str_split sep (c # cs) =
     (if c = sep then [] # str_split sep cs
      else case str_split sep cs of
        p # ps \<Rightarrow> (c # p) # ps
      | [] \<Rightarrow> [[c]])"

text \<open>
  \<open>int(s)\<close> for a string: whitespace around the number is dropped, a sign may come
  first, and the decimal digits may be separated by single underscores; anything else
  raises \<open>ValueError\<close>.
\<close>

definition is_digit :: "char \<Rightarrow> bool" where
  "is_digit c = (48 \<le> (of_char c :: nat) \<and> (of_char c :: nat) \<le> 57)"

definition digit_value :: "char \<Rightarrow> nat" where
  "digit_value c = of_char c - 48"

definition is_unicode_space :: "char \<Rightarrow> bool" where
  "is_unicode_space c = ((of_char c :: nat) \<in> {9, 10, 11, 12, 13, 28, 29, 30, 31, 32, 133, 160})"

definition str_strip :: "string \<Rightarrow> string" where
  "str_strip s = rev (dropWhile is_unicode_space (rev (dropWhile is_unicode_space s)))"

fun digits_value :: "nat \<Rightarrow> bool \<Rightarrow> string \<Rightarrow> nat option" where
  "digits_value acc prev [] = (if prev then Some acc else None)"
| "digits_value acc prev (c # cs) =
     (if is_digit c then digits_value (acc * 10 + digit_value c) True cs
      else if c = CHR ''_'' \<and> prev \<and> (case cs of [] \<Rightarrow> False | d # _ \<Rightarrow> is_digit d)
        then digits_value acc False cs
      else None)"

definition py_int :: "string \<Rightarrow> int option" where
  "py_int s =
     (case str_strip s of
        [] \<Rightarrow> None
      | c # cs \<Rightarrow>
          if c = CHR ''-'' then map_option (\<lambda>n. - int n) (digits_value 0 False cs)
          else if c = CHR ''+'' then map_option int (digits_value 0 False cs)
          else map_option int (digits_value 0 False (c # cs)))"

text \<open>
  \<open>WebSocketManager.issue_token\<close> and \<open>_verify_token\<close>. The library's HMAC-SHA256 and
  URL-safe base64 are parameters (\<open>hmac\<close> takes the secret and the message;
  \<open>b64decode\<close> is \<open>None\<close> where the library raises), the clock reading
  \<open>int(time.time())\<close> and the fresh nonce are arguments, and bytes and strings are
  identified. The table \<open>used_nonces\<close> maps a nonce to the expiry of its token.
\<close>

definition issue_token ::
  "(string \<Rightarrow> string \<Rightarrow> string) \<Rightarrow> (string \<Rightarrow> string) \<Rightarrow> string \<Rightarrow> int \<Rightarrow> int \<Rightarrow> string \<Rightarrow>
   string \<Rightarrow> string \<Rightarrow> string \<Rightarrow> string" where
  "issue_token hmac b64encode secret token_ttl now nonce user_id tid host =
     (let exp = now + token_ttl;
          msg = user_id @ '':'' @ tid @ '':'' @ host @ '':'' @ str_int exp @ '':'' @ nonce;
          sig = hmac secret msg
      in b64encode (msg @ sig))"

datatype token_error =
  DecodeError | InvalidSignature | MalformedMessage | TokenExpired | TokenReplay

text \<open>\<open>{n: e for n, e in used_nonces.items() if e > now}\<close>.\<close>

definition clean_nonces :: "(string \<rightharpoonup> int) \<Rightarrow> int \<Rightarrow> (string \<rightharpoonup> int)" where
  "clean_nonces used now =
     (\<lambda>n. case used n of None \<Rightarrow> None | Some e \<Rightarrow> if e > now then Some e else None)"

definition verify_token ::
  "(string \<Rightarrow> string \<Rightarrow> string) \<Rightarrow> (string \<Rightarrow> string option) \<Rightarrow> string \<Rightarrow> (string \<rightharpoonup> int) \<Rightarrow>
   int \<Rightarrow> string \<Rightarrow> (token_error + string \<times> string \<times> string) \<times> (string \<rightharpoonup> int)" where
  "verify_token hmac b64decode secret used_nonces now token =
     (case b64decode token of
        None \<Rightarrow> (Inl DecodeError, used_nonces)
      | Some raw \<Rightarrow>
          (let msg = take (length raw - 32) raw; sig = drop (length raw - 32) raw in
           if hmac secret msg \<noteq> sig then (Inl InvalidSignature, used_nonces)
           else case str_split CHR '':'' msg of
             user # tid # host # e # nonce # _ \<Rightarrow>
               (case py_int e of
                  None \<Rightarrow> (Inl MalformedMessage, used_nonces)
                | Some exp \<Rightarrow>
                    (let used1 = clean_nonces used_nonces now in
                     if now > exp then (Inl TokenExpired, used1)
                     else if used1 nonce \<noteq> None then (Inl TokenReplay, used1)
                     else (Inr (user, tid, host), used1(nonce \<mapsto> exp))))
           | _ \<Rightarrow> (Inl MalformedMessage, used_nonces)))"

text \<open>Stand-ins for the library functions, to run the token code on examples: a
  digest of 32 fixed bytes and the identity encoding.\<close>

definition example_hmac :: "string \<Rightarrow> string \<Rightarrow> string" where
  "example_hmac secret msg = replicate 32 CHR ''#''"

definition example_b64encode :: "string \<Rightarrow> string" where
  "example_b64encode raw = raw"

definition example_b64decode :: "string \<Rightarrow> string option" where
  "example_b64decode token = Some token"

text \<open>The signed message of a token for \<open>(api_user, t1, nas)\<close> that expires at 130.\<close>

definition example_msg :: string where
  "example_msg = ''api_user:t1:nas:130:n0nce''"


section \<open>JSON-mode placeholder substitution\<close>

text \<open>
  The library's \<open>json.loads\<close>, as far as \<open>replace_json_placeholders\<close> uses it: a
  decoder for one JSON document. Whitespace is space, tab, line feed and carriage
  return; strings are decoded to their code points; of a number only the literal is
  kept. The characters of a Python string are taken as the code points below 256.
\<close>

type_synonym ustring = "nat list"

datatype json =
    JNull
  | JBool bool
  | JNumber string
  | JString ustring
  | JArray "json list"
  | JObject "(ustring \<times> json) list"

definition is_json_ws :: "char \<Rightarrow> bool" where
  "is_json_ws c = ((of_char c :: nat) \<in> {32, 9, 10, 13})"

definition skip_ws :: "string \<Rightarrow> string" where
  "skip_ws s = dropWhile is_json_ws s"

text \<open>Four hexadecimal digits of a \<open>\u\<close> escape.\<close>

definition hex4 :: "char \<Rightarrow> char \<Rightarrow> char \<Rightarrow> char \<Rightarrow> nat option" where
  "hex4 a b c d =
     (case (hexval a, hexval b, hexval c, hexval d) of
        (Some w, Some x, Some y, Some z) \<Rightarrow> Some (((w * 16 + x) * 16 + y) * 16 + z)
      | _ \<Rightarrow> None)"

text \<open>A low surrogate escape \<open>\uXXXX\<close> at the head of the input, if there is one.\<close>

definition low_surrogate :: "string \<Rightarrow> (nat \<times> string) option" where
  "low_surrogate s =
     (case s of
        b # u # e # f # g # h # rest \<Rightarrow>
          if b = CHR 0x5C \<and> u = CHR ''u'' then
            (case hex4 e f g h of
               Some lo \<Rightarrow> if 0xDC00 \<le> lo \<and> lo \<le> 0xDFFF then Some (lo, rest) else None
             | None \<Rightarrow> None)
          else None
      | _ \<Rightarrow> None)"

text \<open>The character of a one-letter escape.\<close>

definition escape_code :: "char \<Rightarrow> nat option" where
  "escape_code c =
     (if c = CHR 0x22 then Some 0x22
      else if c = CHR 0x5C then Some 0x5C
      else if c = CHR ''/'' then Some 0x2F
      else if c = CHR ''b'' then Some 8
      else if c = CHR ''f'' then Some 12
      else if c = CHR ''n'' then Some 10
      else if c = CHR ''r'' then Some 13
      else if c = CHR ''t'' then Some 9
      else None)"

text \<open>\<open>scanstring\<close> (strict): the input starts after the opening quote; the result is
  the decoded string and the input after the closing quote.\<close>

fun scan_string :: "string \<Rightarrow> (ustring \<times> string) option" where
  "scan_string [] = None"
| "scan_string (c # cs) =
     (if c = CHR 0x22 then Some ([], cs)
      else if (of_char c :: nat) < 0x20 then None
      else if c = CHR 0x5C then
        (case cs of
           [] \<Rightarrow> None
         | e # es \<Rightarrow>
             if e = CHR ''u'' then
               (case es of
                  h1 # h2 # h3 # h4 # rest \<Rightarrow>
                    (case hex4 h1 h2 h3 h4 of
                       None \<Rightarrow> None
                     | Some uni \<Rightarrow>
                         (case (if 0xD800 \<le> uni \<and> uni \<le> 0xDBFF then low_surrogate rest
                                else None) of
                            Some (lo, rest') \<Rightarrow>
                              (case scan_string (drop 6 rest) of
                                 None \<Rightarrow> None
                               | Some (str, r) \<Rightarrow>
                                   Some ((0x10000 + (uni - 0xD800) * 1024 + (lo - 0xDC00)) # str, r))
                          | None \<Rightarrow>
                              (case scan_string rest of
                                 None \<Rightarrow> None
                               | Some (str, r) \<Rightarrow> Some (uni # str, r))))
                | _ \<Rightarrow> None)
             else
               (case escape_code e of
                  None \<Rightarrow> None
                | Some code \<Rightarrow>
                    (case scan_string es of
                       None \<Rightarrow> None
                     | Some (str, r) \<Rightarrow> Some (code # str, r))))
      else
        (case scan_string cs of
           None \<Rightarrow> None
         | Some (str, r) \<Rightarrow> Some (of_char c # str, r)))"

text \<open>The number literal \<open>-?(0|[1-9][0-9]*)(\.[0-9]+)?([eE][-+]?[0-9]+)?\<close> at the head
  of the input.\<close>

definition scan_digits :: "string \<Rightarrow> string \<times> string" where
  "scan_digits s = (takeWhile is_digit s, dropWhile is_digit s)"

definition scan_int_part :: "string \<Rightarrow> (string \<times> string) option" where
  "scan_int_part s =
     (let (sign, s1) = (case s of c # cs \<Rightarrow> if c = CHR ''-'' then (''-'', cs) else ([], s)
                                | [] \<Rightarrow> ([], s))
      in case s1 of
           [] \<Rightarrow> None
         | d # ds \<Rightarrow>
             if d = CHR ''0'' then Some (sign @ ''0'', ds)
             else if is_digit d then
               (let (more, rest) = scan_digits ds in Some (sign @ d # more, rest))
             else None)"

definition scan_frac :: "string \<Rightarrow> string \<times> string" where
  "scan_frac s =
     (case s of
        c # cs \<Rightarrow>
          if c = CHR ''.'' then
            (let (ds, rest) = scan_digits cs in if ds = [] then ([], s) else (c # ds, rest))
          else ([], s)
      | [] \<Rightarrow> ([], s))"

definition scan_exp :: "string \<Rightarrow> string \<times> string" where
  "scan_exp s =
     (case s of
        c # cs \<Rightarrow>
          if c = CHR ''e'' \<or> c = CHR ''E'' then
            (let (sign, s1) = (case cs of x # xs \<Rightarrow> if x = CHR ''-'' \<or> x = CHR ''+''
                                                      then ([x], xs) else ([], cs)
                                        | [] \<Rightarrow> ([], cs));
                 (ds, rest) = scan_digits s1
             in if ds = [] then ([], s) else (c # sign @ ds, rest))
          else ([], s)
      | [] \<Rightarrow> ([], s))"

definition scan_number :: "string \<Rightarrow> (string \<times> string) option" where
  "scan_number s =
     (case scan_int_part s of
        None \<Rightarrow> None
      | Some (i, s1) \<Rightarrow>
          (let (f, s2) = scan_frac s1; (e, s3) = scan_exp s2 in Some (i @ f @ e, s3)))"

text \<open>
  \<open>scan_once\<close>, \<open>JSONObject\<close> and \<open>JSONArray\<close>. The first argument bounds the depth
  of the calls; \<open>json_loads\<close> starts with more than the length of the text, and each
  call consumes a character before the next. \<open>parse_members\<close> starts after the opening
  quote of a key, \<open>parse_elements\<close> at the first character of an element.
\<close>

fun parse_value :: "nat \<Rightarrow> string \<Rightarrow> (json \<times> string) option"
  and parse_members :: "nat \<Rightarrow> string \<Rightarrow> (ustring \<times> json) list \<Rightarrow> (json \<times> string) option"
  and parse_elements :: "nat \<Rightarrow> string \<Rightarrow> json list \<Rightarrow> (json \<times> string) option" where
  "parse_value 0 s = None"
| "parse_value (Suc n) s =
     (case s of
        [] \<Rightarrow> None
      | c # cs \<Rightarrow>
          if c = CHR 0x22 then
            (case scan_string cs of None \<Rightarrow> None | Some (str, r) \<Rightarrow> Some (JString str, r))
          else if c = CHR ''{'' then
            (case skip_ws cs of
               [] \<Rightarrow> None
             | d # ds \<Rightarrow>
                 if d = CHR ''}'' then Some (JObject [], ds)
                 else if d = CHR 0x22 then parse_members n ds []
                 else None)
          else if c = CHR ''['' then
            (case skip_ws cs of
               [] \<Rightarrow> None
             | d # ds \<Rightarrow>
                 if d = CHR '']'' then Some (JArray [], ds)
                 else parse_elements n (d # ds) [])
          else if starts_with s ''null'' then Some (JNull, drop 4 s)
          else if starts_with s ''true'' then Some (JBool True, drop 4 s)
          else if starts_with s ''false'' then Some (JBool False, drop 5 s)
          else
            (case scan_number s of
               Some (lit, r) \<Rightarrow> Some (JNumber lit, r)
             | None \<Rightarrow>
                 if starts_with s ''NaN'' then Some (JNumber ''NaN'', drop 3 s)
                 else if starts_with s ''Infinity'' then Some (JNumber ''Infinity'', drop 8 s)
                 else if starts_with s ''-Infinity'' then Some (JNumber ''-Infinity'', drop 9 s)
                 else None))"
| "parse_members 0 s acc = None"
| "parse_members (Suc n) s acc =
     (case scan_string s of
        None \<Rightarrow> None
      | Some (key, r1) \<Rightarrow>
          (case skip_ws r1 of
             [] \<Rightarrow> None
           | c # r2 \<Rightarrow>
               if c \<noteq> CHR '':'' then None
               else
                 (case parse_value n (skip_ws r2) of
                    None \<Rightarrow> None
                  | Some (v, r3) \<Rightarrow>
                      (case skip_ws r3 of
                         [] \<Rightarrow> None
                       | d # r4 \<Rightarrow>
                           if d = CHR ''}'' then Some (JObject (acc @ [(key, v)]), r4)
                           else if d = CHR '','' then
                             (case skip_ws r4 of
                                [] \<Rightarrow> None
                              | q # r5 \<Rightarrow>
                                  if q = CHR 0x22 then parse_members n r5 (acc @ [(key, v)])
                                  else None)
                           else None))))"
| "parse_elements 0 s acc = None"
| "parse_elements (Suc n) s acc =
     (case parse_value n s of
        None \<Rightarrow> None
      | Some (v, r1) \<Rightarrow>
          (case skip_ws r1 of
             [] \<Rightarrow> None
           | d # r2 \<Rightarrow>
               if d = CHR '']'' then Some (JArray (acc @ [v]), r2)
               else if d = CHR '','' then parse_elements n (skip_ws r2) (acc @ [v])
               else None))"

definition json_loads :: "string \<Rightarrow> json option" where
  "json_loads s =
     (case parse_value (Suc (length s)) (skip_ws s) of
        None \<Rightarrow> None
      | Some (v, r) \<Rightarrow> if skip_ws r = [] then Some v else None)"

text \<open>The keys of a decoded object, in the order of the text.\<close>

definition object_keys :: "json \<Rightarrow> ustring list option" where
  "object_keys v = (case v of JObject ps \<Rightarrow> Some (map fst ps) | _ \<Rightarrow> None)"

definition ustr :: "string \<Rightarrow> ustring" where
  "ustr s = map of_char s"

text \<open>\<open>json.dumps(s)\<close> for a string: quotes, and escapes for \<open>"\<close>, \<open>\\<close> and every
  character outside the printable ASCII range.\<close>

definition hex_char :: "nat \<Rightarrow> char" where
  "hex_char d = (if d < 10 then char_of (48 + d) else char_of (87 + d))"

definition escape_char :: "char \<Rightarrow> string" where
  "escape_char c =
     (let n = (of_char c :: nat) in
      if c = CHR 0x22 then [CHR 0x5C, CHR 0x22]
      else if c = CHR 0x5C then [CHR 0x5C, CHR 0x5C]
      else if n = 10 then [CHR 0x5C, CHR ''n'']
      else if n = 13 then [CHR 0x5C, CHR ''r'']
      else if n = 9 then [CHR 0x5C, CHR ''t'']
      else if n = 8 then [CHR 0x5C, CHR ''b'']
      else if n = 12 then [CHR 0x5C, CHR ''f'']
      else if 32 \<le> n \<and> n \<le> 126 then [c]
      else [CHR 0x5C, CHR ''u'', CHR ''0'', CHR ''0'', hex_char (n div 16), hex_char (n mod 16)])"

definition json_dumps_str :: "string \<Rightarrow> string" where
  "json_dumps_str s = CHR 0x22 # concat (map escape_char s) @ [CHR 0x22]"

text \<open>
  The parameter values of the model are Python's strings, integers, booleans and
  \<open>None\<close>; floats, dictionaries and lists (whose \<open>str()\<close> and \<open>json.dumps()\<close> texts
  are those of the library's float formatting and \<open>repr\<close>) are not values of the model.
\<close>

datatype pyval = PStr string | PInt int | PBool bool | PNone

definition py_str :: "pyval \<Rightarrow> string" where
  "py_str v =
     (case v of
        PStr s \<Rightarrow> s
      | PInt i \<Rightarrow> str_int i
      | PBool b \<Rightarrow> (if b then ''True'' else ''False'')
      | PNone \<Rightarrow> ''None'')"

text \<open>
  The replacement for one placeholder type, or the \<open>ValueError\<close> raised. The argument
  \<open>float_dumps\<close> stands for the library's \<open>json.dumps(float(s))\<close> on a string with a
  decimal point (\<open>None\<close> where \<open>float(s)\<close> raises).
\<close>

definition typed_replacement ::
  "(string \<Rightarrow> string option) \<Rightarrow> string \<Rightarrow> pyval \<Rightarrow> error + string" where
  "typed_replacement float_dumps type_prefix v =
     (if type_prefix = ''string'' then Inr (json_dumps_str (py_str v))
      else if type_prefix = ''number'' then
        (case v of
           PBool _ \<Rightarrow> Inl ValueError
         | PNone \<Rightarrow> Inl ValueError
         | PInt i \<Rightarrow> Inr (str_int i)
         | PStr s \<Rightarrow>
             if CHR ''.'' \<in> set s then
               (case float_dumps s of None \<Rightarrow> Inl ValueError | Some r \<Rightarrow> Inr r)
             else (case py_int s of None \<Rightarrow> Inl ValueError | Some i \<Rightarrow> Inr (str_int i)))
      else if type_prefix = ''boolean'' then
        (case v of
           PBool b \<Rightarrow> Inr (if b then ''true'' else ''false'')
         | _ \<Rightarrow>
             if lower (py_str v) \<in> set [''true'', ''1'', ''yes''] then Inr ''true''
             else if lower (py_str v) \<in> set [''false'', ''0'', ''no''] then Inr ''false''
             else Inl ValueError)
      else if type_prefix = ''json'' then
        (case v of
           PStr s \<Rightarrow>
             (case json_loads s of Some (JObject _) \<Rightarrow> Inr s | _ \<Rightarrow> Inl ValueError)
         | _ \<Rightarrow> Inl ValueError)
      else if type_prefix = ''array'' then
        (case v of
           PStr s \<Rightarrow>
             (case json_loads s of Some (JArray _) \<Rightarrow> Inr s | _ \<Rightarrow> Inl ValueError)
         | _ \<Rightarrow> Inl ValueError)
      else Inl ValueError)"

text \<open>The inner loop, over the type prefixes, for one parameter.\<close>

fun replace_types ::
  "(string \<Rightarrow> string option) \<Rightarrow> string list \<Rightarrow> string \<Rightarrow> pyval \<Rightarrow> string \<Rightarrow> error + string" where
  "replace_types float_dumps [] key v result = Inr result"
| "replace_types float_dumps (type_prefix # tps) key v result =
     (let placeholder = ''<'' @ type_prefix @ ''_'' @ key @ ''>'' in
      if \<not> str_contains result placeholder then replace_types float_dumps tps key v result
      else case typed_replacement float_dumps type_prefix v of
        Inl e \<Rightarrow> Inl e
      | Inr replacement \<Rightarrow>
          replace_types float_dumps tps key v (str_replace result placeholder replacement))"

text \<open>The outer loop, over the parameters in the order of the dictionary.\<close>

fun replace_params ::
  "(string \<Rightarrow> string option) \<Rightarrow> (string \<times> pyval) list \<Rightarrow> string \<Rightarrow> error + string" where
  "replace_params float_dumps [] result = Inr result"
| "replace_params float_dumps ((key, v) # kvs) result =
     (case replace_types float_dumps [''string'', ''number'', ''boolean'', ''json'', ''array'']
             key v result of
        Inl e \<Rightarrow> Inl e
      | Inr result' \<Rightarrow> replace_params float_dumps kvs result')"

text \<open>\<open>all_params = {"hostname": hostname}; all_params.update(params)\<close>.\<close>

definition all_params :: "string \<Rightarrow> (string \<times> pyval) list \<Rightarrow> (string \<times> pyval) list" where
  "all_params host params = foldl (\<lambda>d (k, v). dict_set k v d) [(''hostname'', PStr host)] params"

definition replace_json_placeholders ::
  "(string \<Rightarrow> string option) \<Rightarrow> string \<Rightarrow> string \<Rightarrow> (string \<times> pyval) list \<Rightarrow> error + string" where
  "replace_json_placeholders float_dumps json_text host params =
     (case replace_params float_dumps (all_params host params) json_text of
        Inl e \<Rightarrow> Inl e
      | Inr result \<Rightarrow>
          (case json_loads result of
             None \<Rightarrow> Inl ValueError
           | Some _ \<Rightarrow> Inr result))"

text \<open>No float conversion is needed in the examples.\<close>

definition no_float :: "string \<Rightarrow> string option" where
  "no_float s = None"


section \<open>Properties of the persistent ordered store\<close>

lemma store_ok_empty: "store_ok (empty_store n)"
  by (simp add: store_ok_def empty_store_def)

lemma list_remove_Some: "x \<in> set xs \<Longrightarrow> list_remove x xs = Some (remove1 x xs)"
  by (simp add: list_remove_def)

lemma set_item_existing:
  assumes "store_ok s" and "key \<in> dom (db s)"
  shows "set_item s key v =
           (None, s\<lparr>db := (db s)(key \<mapsto> v),
                      order := remove1 key (order s) @ [key],
                      tagged_for_removal := removeAll key (tagged_for_removal s)\<rparr>)"
proof -
  from assms have "key \<in> set (order s)" by (simp add: store_ok_def)
  then show ?thesis using assms(2)
    by (simp add: set_item_def Let_def list_remove_def dict_pop_def)
qed

lemma store_ok_set_item_existing:
  assumes "store_ok s" and "key \<in> dom (db s)"
  shows "store_ok (snd (set_item s key v))"
proof -
  from assms have k: "key \<in> set (order s)" by (simp add: store_ok_def)
  show ?thesis
    using assms k unfolding set_item_existing [OF assms]
    by (auto simp: store_ok_def distinct_removeAll)
qed

lemma set_item_full_untagged:
  assumes "key \<notin> dom (db s)" "0 < max_size s" "max_size s \<le> int (length (order s))"
    "tagged_for_removal s = []"
  shows "set_item s key v = (Some FullDictionaryError, s)"
  using assms by (simp add: set_item_def evict_tagged_def)

lemma set_item_full_tagged:
  assumes "store_ok s" "key \<notin> dom (db s)" "0 < max_size s" "max_size s \<le> int (length (order s))"
    "tagged_for_removal s = t # ts"
  shows "set_item s key v =
     (None, s\<lparr>db := ((db s)(t := None))(key \<mapsto> v),
               order := remove1 t (order s) @ [key],
               tagged_for_removal := ts\<rparr>)"
proof -
  from assms have t: "t \<in> set (order s)" "t \<in> dom (db s)" by (auto simp: store_ok_def)
  then show ?thesis using assms
    by (simp add: set_item_def evict_tagged_def Let_def list_remove_def)
qed

lemma set_item_evicts_only_tagged:
  assumes "k \<in> dom (db s)" "k \<notin> dom (db (snd (set_item s key v)))"
  shows "k \<in> set (tagged_for_removal s)"
  using assms
  by (auto simp: set_item_def evict_tagged_def Let_def list_remove_def
      split: if_splits list.splits option.splits)

lemma those_map_total:
  "set ks \<subseteq> dom m \<Longrightarrow> \<exists>vs. those (map m ks) = Some vs"
  by (induction ks) auto

lemma get_items_reversed_updated:
  assumes "store_ok s" and "key \<in> dom (db s)"
  shows "\<exists>vs. get_items_reversed (snd (set_item s key v)) = Inr (v # vs)"
proof -
  let ?m = "(db s)(key \<mapsto> v)"
  have "set (rev (remove1 key (order s))) \<subseteq> dom ?m"
    using assms by (auto simp: store_ok_def)
  then obtain vs where "those (map ?m (rev (remove1 key (order s)))) = Some vs"
    using those_map_total by blast
  then show ?thesis
    unfolding get_items_reversed_def
    by (simp add: set_item_existing [OF assms])
qed

lemma store_ok_set_item: "store_ok s \<Longrightarrow> store_ok (snd (set_item s key v))"
proof (cases "key \<in> dom (db s)")
  case True
  assume "store_ok s"
  then show ?thesis using True by (rule store_ok_set_item_existing)
next
  case False
  assume ok: "store_ok s"
  show ?thesis
  proof (cases "0 < max_size s \<and> max_size s \<le> int (length (order s))")
    case nofull: False
    then show ?thesis using ok False
      by (auto simp: set_item_def store_ok_def)
  next
    case full: True
    show ?thesis
    proof (cases "tagged_for_removal s")
      case Nil
      then show ?thesis using ok False full
        by (simp add: set_item_def evict_tagged_def)
    next
      case (Cons t ts)
      have "set_item s key v =
         (None, s\<lparr>db := ((db s)(t := None))(key \<mapsto> v),
               order := remove1 t (order s) @ [key],
               tagged_for_removal := ts\<rparr>)"
        using ok False full Cons by (intro set_item_full_tagged) auto
      moreover have "t \<notin> set ts" "t \<in> set (order s)" "key \<notin> set (order s)"
        using ok Cons False by (auto simp: store_ok_def)
      ultimately show ?thesis using ok Cons False
        by (auto simp: store_ok_def)
    qed
  qed
qed

lemma store_ok_tag_for_removal: "store_ok s \<Longrightarrow> store_ok (tag_for_removal s key)"
  by (auto simp: store_ok_def tag_for_removal_def)

lemma store_ok_del_item: "store_ok s \<Longrightarrow> store_ok (snd (del_item s key))"
  by (auto simp: store_ok_def del_item_def list_remove_def dict_pop_def Let_def distinct_removeAll)

text \<open>
  Claim C4. A set of a key that is not in the store, while \<open>max_size > 0\<close> and the
  length equals \<open>max_size\<close>: with no tagged entry the insert raises
  \<open>FullDictionaryError\<close> and leaves the store as it was; with tagged entries the one
  tagged first is evicted (value, order entry and tag) and the new key is appended.
  Whatever the store and the key, a set removes no key that was not tagged, and tagging
  removes nothing.
\<close>

theorem set_item_new_key_at_capacity:
  assumes "store_ok s" and "\<not> store_contains s key"
    and "0 < max_size s" and "int (store_len s) = max_size s"
  shows "(tagged_for_removal s = [] \<longrightarrow> set_item s key v = (Some FullDictionaryError, s)) \<and>
    (\<forall>t ts. tagged_for_removal s = t # ts \<longrightarrow>
       set_item s key v =
         (None, s\<lparr>db := ((db s)(t := None))(key \<mapsto> v),
                   order := remove1 t (order s) @ [key],
                   tagged_for_removal := ts\<rparr>)) \<and>
    (\<forall>(s' :: 'a store) key' v' k.
       k \<in> dom (db s') \<and> k \<notin> dom (db (snd (set_item s' key' v'))) \<longrightarrow>
         k \<in> set (tagged_for_removal s')) \<and>
    (\<forall>(s' :: 'a store) key'.
       db (tag_for_removal s' key') = db s' \<and> order (tag_for_removal s' key') = order s')"
proof -
  from assms have new: "key \<notin> dom (db s)" by (auto simp: store_ok_def store_contains_def)
  from assms have full: "max_size s \<le> int (length (order s))" by (simp add: store_len_def)
  have a: "tagged_for_removal s = [] \<longrightarrow> set_item s key v = (Some FullDictionaryError, s)"
    using set_item_full_untagged [OF new assms(3) full] by blast
  have b: "\<forall>t ts. tagged_for_removal s = t # ts \<longrightarrow>
       set_item s key v =
         (None, s\<lparr>db := ((db s)(t := None))(key \<mapsto> v),
                   order := remove1 t (order s) @ [key],
                   tagged_for_removal := ts\<rparr>)"
    using set_item_full_tagged [OF assms(1) new assms(3) full] by blast
  have c: "\<forall>(s' :: 'a store) key' v' k.
       k \<in> dom (db s') \<and> k \<notin> dom (db (snd (set_item s' key' v'))) \<longrightarrow>
         k \<in> set (tagged_for_removal s')"
  proof (intro allI impI)
    fix s' :: "'a store" and key' v' k
    assume "k \<in> dom (db s') \<and> k \<notin> dom (db (snd (set_item s' key' v')))"
    then show "k \<in> set (tagged_for_removal s')"
      using set_item_evicts_only_tagged [of k s' key' v'] by simp
  qed
  have d: "\<forall>(s' :: 'a store) key'.
       db (tag_for_removal s' key') = db s' \<and> order (tag_for_removal s' key') = order s'"
    by (simp add: tag_for_removal_def)
  from a b c d show ?thesis by blast
qed

theorem set_item_new_key_at_capacity_witness:
  "store_ok full_store \<and> \<not> store_contains full_store ''c'' \<and> 0 < max_size full_store \<and>
   int (store_len full_store) = max_size full_store \<and>
   fst (set_item full_store ''c'' 3) = None \<and>
   order (snd (set_item full_store ''c'' 3)) = [''a'', ''c''] \<and>
   tagged_for_removal (snd (set_item full_store ''c'' 3)) = [''a''] \<and>
   db (snd (set_item full_store ''c'' 3)) ''b'' = None \<and>
   db (snd (set_item full_store ''c'' 3)) ''c'' = Some 3 \<and>
   store_ok full_untagged_store \<and> \<not> store_contains full_untagged_store ''c'' \<and>
   0 < max_size full_untagged_store \<and>
   int (store_len full_untagged_store) = max_size full_untagged_store \<and>
   set_item full_untagged_store ''c'' 3 = (Some FullDictionaryError, full_untagged_store)"
proof -
  have h1: "store_ok full_store" by (auto simp: store_ok_def full_store_def)
  have h2: "\<not> store_contains full_store ''c''" by (simp add: store_contains_def full_store_def)
  have h3: "0 < max_size full_store" by (simp add: full_store_def)
  have h4: "int (store_len full_store) = max_size full_store"
    by (simp add: store_len_def full_store_def)
  have g1: "store_ok full_untagged_store" by (auto simp: store_ok_def full_untagged_store_def)
  have g2: "\<not> store_contains full_untagged_store ''c''"
    by (simp add: store_contains_def full_untagged_store_def)
  have g3: "0 < max_size full_untagged_store" by (simp add: full_untagged_store_def)
  have g4: "int (store_len full_untagged_store) = max_size full_untagged_store"
    by (simp add: store_len_def full_untagged_store_def)
  have t: "tagged_for_removal full_store = ''b'' # [''a'']" by (simp add: full_store_def)
  have u: "tagged_for_removal full_untagged_store = []" by (simp add: full_untagged_store_def)
  note e1 = set_item_new_key_at_capacity [OF h1 h2 h3 h4, of 3,
      THEN conjunct2, THEN conjunct1, rule_format, OF t]
  note e2 = set_item_new_key_at_capacity [OF g1 g2 g3 g4, of 3,
      THEN conjunct1, rule_format, OF u]
  have o: "remove1 ''b'' (order full_store) = [''a'']" by (simp add: full_store_def)
  have d: "((db full_store)(''b'' := None, ''c'' \<mapsto> 3)) ''b'' = None" by simp
  show ?thesis
    using h1 h2 h3 h4 g1 g2 g3 g4 e2 unfolding e1 by (simp add: o)
qed

text \<open>
  Claim C9. A set of a key that is in the store: nothing is raised and nothing evicted
  (the keys with a value and the length stay, whatever the capacity), the value is
  replaced, the key's tag is cleared, the key moves to the end of the exposed order,
  and the newest-first listing starts with the new value.
\<close>

theorem set_item_existing_key:
  assumes "store_ok s" and "store_contains s key"
  shows "set_item s key v =
           (None, s\<lparr>db := (db s)(key \<mapsto> v),
                      order := remove1 key (order s) @ [key],
                      tagged_for_removal := removeAll key (tagged_for_removal s)\<rparr>) \<and>
         dom (db (snd (set_item s key v))) = dom (db s) \<and>
         store_len (snd (set_item s key v)) = store_len s \<and>
         key \<notin> set (tagged_for_removal (snd (set_item s key v))) \<and>
         keys (snd (set_item s key v)) = remove1 key (keys s) @ [key] \<and>
         (\<exists>vs. get_items_reversed (snd (set_item s key v)) = Inr (v # vs))"
proof -
  from assms have k: "key \<in> dom (db s)" "key \<in> set (order s)"
    by (simp_all add: store_contains_def)
  note e = set_item_existing [OF assms(1) k(1), of v]
  have l: "length (remove1 key (order s)) = length (order s) - 1"
    using k(2) by (simp add: length_remove1)
  have "order s \<noteq> []" using k(2) by auto
  then have l': "Suc (length (order s) - 1) = length (order s)" by simp
  show ?thesis
    using k get_items_reversed_updated [OF assms(1) k(1), of v] l l'
    by (auto simp: e keys_def store_len_def)
qed

theorem set_item_existing_key_witness:
  "store_ok full_store \<and> store_contains full_store ''a'' \<and>
   fst (set_item full_store ''a'' 7) = None \<and>
   keys (snd (set_item full_store ''a'' 7)) = [''b'', ''a''] \<and>
   tagged_for_removal (snd (set_item full_store ''a'' 7)) = [''b''] \<and>
   get_items_reversed (snd (set_item full_store ''a'' 7)) = Inr [7, 2]"
proof -
  have h1: "store_ok full_store" by (auto simp: store_ok_def full_store_def)
  have h2: "store_contains full_store ''a''" by (simp add: store_contains_def full_store_def)
  note e = set_item_existing_key [OF h1 h2, of 7, THEN conjunct1]
  show ?thesis using h1 h2 unfolding e
    by (simp add: keys_def get_items_reversed_def full_store_def)
qed

section \<open>Properties of the rejection response\<close>

lemma validate_command_host_result:
  "validate_command_host h host command_name = (None, r) \<Longrightarrow> r \<noteq> None"
  by (auto simp: validate_command_host_def validate_http_command_def
      validate_shell_command_def Let_def
      split: option.splits if_splits cfg_value.splits)

lemma handle_validation_errors_body: "snd (handle_validation_errors errs) = errs"
  by (simp add: handle_validation_errors_def)

text \<open>
  Claim C2, as the code has it: when validation reports errors, the response carries
  the whole list, and its status is 403 exactly when at least one error is on the
  allow-list; it is 500 only when none is.
\<close>

theorem validation_response_status:
  assumes "validate_hosts hosts action command_name hosts_config = (errs, entries)"
    and "errs \<noteq> []"
  shows "post_validation_response hosts action command_name hosts_config =
           Some (if \<exists>e \<in> set errs. error e \<in> set error_types then 403 else 500, errs)"
  using assms by (simp add: post_validation_response_def handle_validation_errors_def)

lemma validate_hosts_example:
  "validate_hosts [''ghost'', ''nas''] ''command'' (Some ''backup'') example_hosts_config =
     ([\<lparr>hostname = ''ghost'', error = ''Host not allowed''\<rparr>,
       \<lparr>hostname = ''nas'', error = ''Invalid timeout''\<rparr>], [])"
  by (simp add: validate_hosts_def example_hosts_config_def validate_command_host_def
      find_command_def backup_command_def validate_shell_command_def falsy_def)

theorem validation_response_status_witness:
  "validate_hosts [''ghost'', ''nas''] ''command'' (Some ''backup'') example_hosts_config =
     ([\<lparr>hostname = ''ghost'', error = ''Host not allowed''\<rparr>,
       \<lparr>hostname = ''nas'', error = ''Invalid timeout''\<rparr>], []) \<and>
   post_validation_response [''ghost'', ''nas''] ''command'' (Some ''backup'')
       example_hosts_config =
     Some (403, [\<lparr>hostname = ''ghost'', error = ''Host not allowed''\<rparr>,
                 \<lparr>hostname = ''nas'', error = ''Invalid timeout''\<rparr>])"
  using validation_response_status [OF validate_hosts_example]
  by (simp add: validate_hosts_example error_types_def)

text \<open>
  The claim as stated (403 if and only if every error is allow-listed) fails: a request
  for an unknown host and for a host whose command has a negative timeout is answered
  with 403, although \<open>Invalid timeout\<close> is not on the allow-list.
\<close>

theorem validation_response_status_counterexample:
  "post_validation_response [''ghost'', ''nas''] ''command'' (Some ''backup'')
       example_hosts_config =
     Some (403, [\<lparr>hostname = ''ghost'', error = ''Host not allowed''\<rparr>,
                 \<lparr>hostname = ''nas'', error = ''Invalid timeout''\<rparr>]) \<and>
   ''Invalid timeout'' \<notin> set error_types"
  by (simp add: post_validation_response_def validate_hosts_example
      handle_validation_errors_def error_types_def)


section \<open>Properties of the task updates\<close>

lemma set_item_present:
  assumes "store_ok s" and "db s tid \<noteq> None"
  shows "fst (set_item s tid t) = None"
    and "db (snd (set_item s tid t)) tid = Some t"
    and "tid \<notin> set (tagged_for_removal (snd (set_item s tid t)))"
    and "order (snd (set_item s tid t)) = remove1 tid (order s) @ [tid]"
  using set_item_existing [OF assms(1), of tid t] assms(2)
  by (auto simp: dom_def)

lemma tag_for_removal_db: "db (tag_for_removal s k) = db s"
  by (simp add: tag_for_removal_def)

lemma finish_and_store_present:
  assumes "store_ok s" and "db s tid \<noteq> None"
  shows "fst (finish_and_store s tid t now) = None"
    and "db (snd (finish_and_store s tid t now)) tid =
           Some (if running t = [] then stamp_end t now else t)"
    and "tid \<notin> set (tagged_for_removal (snd (finish_and_store s tid t now)))"
proof -
  have ok: "store_ok (tag_for_removal s tid)" using assms(1) by (rule store_ok_tag_for_removal)
  have pr: "db (tag_for_removal s tid) tid \<noteq> None" using assms(2) by (simp add: tag_for_removal_db)
  show "fst (finish_and_store s tid t now) = None"
    using set_item_present(1) [OF ok pr] set_item_present(1) [OF assms]
    by (simp add: finish_and_store_def)
  show "db (snd (finish_and_store s tid t now)) tid =
           Some (if running t = [] then stamp_end t now else t)"
    using set_item_present(2) [OF ok pr] set_item_present(2) [OF assms]
    by (simp add: finish_and_store_def)
  show "tid \<notin> set (tagged_for_removal (snd (finish_and_store s tid t now)))"
    using set_item_present(3) [OF ok pr] set_item_present(3) [OF assms]
    by (simp add: finish_and_store_def)
qed

lemma end_iff_idle_finish:
  assumes "end_timestamp t \<noteq> None \<longrightarrow> running t = []"
  shows "end_iff_idle (if running t = [] then stamp_end t now else t)"
  using assms by (auto simp: end_iff_idle_def stamp_end_def)

lemma remove1_Nil_iff: "remove1 x xs \<noteq> [] \<Longrightarrow> xs \<noteq> []"
  by auto

lemma atomic_task_update_end_iff_idle:
  assumes "store_ok s" and "db s tid = Some t" and "end_iff_idle t"
    and "entry_hostname v \<noteq> None"
  shows "fst (atomic_task_update s tid f v now) = None \<and>
         (\<exists>t'. db (snd (atomic_task_update s tid f v now)) tid = Some t' \<and> end_iff_idle t')"
proof -
  obtain h where h: "entry_hostname v = Some h" using assms(4) by auto
  let ?t1 = "append_field f v (drop_running h t)"
  have r: "running ?t1 = remove1 (hostname_dict h) (running t)"
    and e: "end_timestamp ?t1 = end_timestamp t"
    by (cases f; simp add: append_field_def drop_running_def)+
  have "end_timestamp ?t1 \<noteq> None \<longrightarrow> running ?t1 = []"
    using assms(3) by (auto simp: r e end_iff_idle_def)
  then have "end_iff_idle (if running ?t1 = [] then stamp_end ?t1 now else ?t1)"
    by (rule end_iff_idle_finish)
  moreover have p: "db s tid \<noteq> None" using assms(2) by simp
  ultimately show ?thesis
    using finish_and_store_present(1,2) [OF assms(1) p, of ?t1 now] assms(2) h
    by (simp add: atomic_task_update_def)
qed

lemma atomic_task_update_untagged:
  assumes "store_ok s" and "db s tid = Some t" and "entry_hostname v \<noteq> None"
  shows "tid \<notin> set (tagged_for_removal (snd (atomic_task_update s tid f v now)))"
proof -
  obtain h where h: "entry_hostname v = Some h" using assms(3) by auto
  have p: "db s tid \<noteq> None" using assms(2) by simp
  show ?thesis
    using finish_and_store_present(3) [OF assms(1) p] assms(2) h
    by (simp add: atomic_task_update_def)
qed

lemma plan_loop_end_untagged:
  assumes "store_ok s" and "db s parent = Some t" and "running t = []"
  shows "fst (plan_loop_end s parent now) = None \<and>
         db (snd (plan_loop_end s parent now)) parent = Some (stamp_end t now) \<and>
         parent \<notin> set (tagged_for_removal (snd (plan_loop_end s parent now)))"
proof -
  have ok: "store_ok (tag_for_removal s parent)" using assms(1) by (rule store_ok_tag_for_removal)
  have pr: "db (tag_for_removal s parent) parent \<noteq> None" using assms(2) by (simp add: tag_for_removal_db)
  show ?thesis
    using set_item_present(1,2,3) [OF ok pr, of "stamp_end t now"] assms(2,3)
    by (simp add: plan_loop_end_def)
qed

lemma wakeup_store_eq:
  "wakeup_store = \<lparr>db = [''t1'' \<mapsto> \<lparr>task_id = ''t1'', start_timestamp = 1000, end_timestamp = None,
        task_command = None, execution_plan = None, plan_tasks = None,
        success = [], running = [hostname_dict ''nas''], errors = []\<rparr>],
      order = [''t1''], tagged_for_removal = [], max_size = 100\<rparr>"
  by (simp add: wakeup_store_def create_task_def set_item_def empty_store_def falsy_def)

lemma wakeup_store_ok: "store_ok wakeup_store"
  by (simp add: wakeup_store_eq store_ok_def)


lemma recover_dropped_task_tagged:
  assumes "store_ok s" and "db s k = Some v" and "running v \<noteq> []"
  shows "fst (recover_dropped_task s k now) = None \<and>
         k \<in> set (tagged_for_removal (snd (recover_dropped_task s k now)))"
proof -
  let ?v = "stamp_end (v\<lparr>errors := errors v @
                         map (\<lambda>item. item\<lparr>entry_error := Some ''Process dropped during restart''\<rparr>)
                           (running v),
                       running := []\<rparr>) now"
  have p: "db s k \<noteq> None" using assms(2) by simp
  have k: "k \<in> set (order s)" using assms(1,2) by (auto simp: store_ok_def)
  obtain s1 where s1: "set_item s k ?v = (None, s1)"
    using set_item_present(1) [OF assms(1) p, of ?v] by (cases "set_item s k ?v") auto
  have "k \<in> set (order s1)"
    using set_item_present(4) [OF assms(1) p, of ?v] s1 by simp
  then have "k \<in> set (tagged_for_removal (tag_for_removal s1 k))"
    by (simp add: tag_for_removal_def)
  then show ?thesis using assms(2,3) s1
    by (simp add: recover_dropped_task_def Let_def)
qed

lemma append_field_running: "running (append_field f v t) = running t"
  and append_field_end: "end_timestamp (append_field f v t) = end_timestamp t"
  by (cases f; simp add: append_field_def)+

lemma finish_and_store_end_iff_idle:
  assumes "store_ok s" and "db s tid = Some t0" and "end_iff_idle t0"
    and "end_timestamp t = end_timestamp t0"
    and "running t = remove1 x (running t0)"
  shows "fst (finish_and_store s tid t now) = None \<and>
         (\<exists>t'. db (snd (finish_and_store s tid t now)) tid = Some t' \<and> end_iff_idle t') \<and>
         tid \<notin> set (tagged_for_removal (snd (finish_and_store s tid t now)))"
proof -
  have p: "db s tid \<noteq> None" using assms(2) by simp
  have "end_timestamp t \<noteq> None \<longrightarrow> running t = []"
    using assms(3,4,5) by (auto simp: end_iff_idle_def)
  then have "end_iff_idle (if running t = [] then stamp_end t now else t)"
    by (rule end_iff_idle_finish)
  then show ?thesis
    using finish_and_store_present [OF assms(1) p, of t now] by simp
qed

lemma http_update_tasks_end_iff_idle:
  assumes "store_ok s" and "db s tid = Some t" and "end_iff_idle t"
  shows "fst (http_update_tasks s tid h aborted ok msg out code now) = None \<and>
         (\<exists>t'. db (snd (http_update_tasks s tid h aborted ok msg out code now)) tid = Some t' \<and>
               end_iff_idle t') \<and>
         tid \<notin> set (tagged_for_removal
                    (snd (http_update_tasks s tid h aborted ok msg out code now)))"
proof -
  obtain t1 where u: "http_update_tasks s tid h aborted ok msg out code now =
                        finish_and_store s tid (drop_running h t1) now"
    and r: "running t1 = running t" and e: "end_timestamp t1 = end_timestamp t"
    using assms(2)
    by (auto simp: http_update_tasks_def Let_def append_field_running append_field_end)
  show ?thesis
    unfolding u
    by (rule finish_and_store_end_iff_idle [OF assms, where x = "hostname_dict h"])
       (simp_all add: drop_running_def r e)
qed

lemma process_update_task_end_iff_idle:
  assumes "store_ok s" and "db s tid = Some t" and "end_iff_idle t"
  shows "fst (process_update_task s tid h err aborted proc now) = None \<and>
         (\<exists>t'. db (snd (process_update_task s tid h err aborted proc now)) tid = Some t' \<and>
               end_iff_idle t') \<and>
         tid \<notin> set (tagged_for_removal (snd (process_update_task s tid h err aborted proc now)))"
proof -
  obtain t1 where u: "process_update_task s tid h err aborted proc now =
                        finish_and_store s tid (drop_running h t1) now"
    and r: "running t1 = running t" and e: "end_timestamp t1 = end_timestamp t"
    using assms(2)
    by (auto simp: process_update_task_def Let_def append_field_running append_field_end
        split: option.splits)
  show ?thesis
    unfolding u
    by (rule finish_and_store_end_iff_idle [OF assms, where x = "hostname_dict h"])
       (simp_all add: drop_running_def r e)
qed


text \<open>
  Claim C3. The code stamps \<open>end_timestamp\<close> when \<open>running\<close> empties and calls
  \<open>tag_for_removal\<close>, but then writes the task back with \<open>db[task_id] = task\<close>, and a
  set of a present key clears its tag. After the completion update of the only host of
  a wakeup task, and after the end of the plan loop on a parent task with no running
  entry, the task has its \<open>end_timestamp\<close> and an empty \<open>running\<close> list, and is not
  tagged for eviction. (The completion updates do keep \<open>end_timestamp\<close> present exactly
  when \<open>running\<close> is empty, and \<open>recover_dropped_tasks\<close>, which writes first and
  tags afterwards, leaves its task tagged: lemmas above.)
\<close>

theorem completion_leaves_task_untagged:
  "(let r = atomic_task_update wakeup_store ''t1'' Success (hostname_dict ''nas'') 2000 in
      fst r = None \<and>
      map_option running (db (snd r) ''t1'') = Some [] \<and>
      map_option end_timestamp (db (snd r) ''t1'') = Some (Some 2000) \<and>
      tagged_for_removal (snd r) = []) \<and>
   (let r = plan_loop_end idle_plan_store ''p1'' 2000 in
      fst r = None \<and>
      map_option running (db (snd r) ''p1'') = Some [] \<and>
      map_option end_timestamp (db (snd r) ''p1'') = Some (Some 2000) \<and>
      tagged_for_removal (snd r) = [])"
  by (simp add: wakeup_store_eq idle_plan_store_def atomic_task_update_def
      plan_loop_end_def finish_and_store_def hostname_dict_def
      append_field_def drop_running_def tag_for_removal_def set_item_def stamp_end_def
      list_remove_def dict_pop_def Let_def)

section \<open>Properties of the plan conditions\<close>

lemma check_conditions_not_completed:
  assumes "if_previous_command pt = Some i" and "i \<ge> cur \<or> task_results i = None"
  shows "\<not> check_conditions pt task_results cur"
  using assms by (auto simp: check_conditions_def)

lemma check_conditions_result_fails:
  assumes "if_previous_command pt = Some i" and "task_results i = Some r"
    and "if_previous_command_result pt = Some c" and "\<not> condition_holds c r"
  shows "\<not> check_conditions pt task_results cur"
  using assms
  by (auto simp: check_conditions_def condition_holds_def falsy_def split: if_splits)

lemma check_conditions_output_missing:
  assumes "if_previous_command pt = Some i" and "task_results i = Some r"
    and "if_previous_output_contains pt = Some sub"
    and "\<not> str_contains (combined_output r) sub"
  shows "\<not> check_conditions pt task_results cur"
proof -
  have "sub \<noteq> []" using assms(4) by (cases "combined_output r") (auto simp: starts_with_def)
  then show ?thesis using assms
    by (auto simp: check_conditions_def falsy_def split: if_splits)
qed

lemma str_contains_iff: "str_contains s p \<longleftrightarrow> (\<exists>xs ys. s = xs @ p @ ys)"
proof (induction s)
  case Nil
  then show ?case by auto
next
  case (Cons c cs)
  have "starts_with (c # cs) p \<longleftrightarrow> (\<exists>ys. c # cs = p @ ys)"
    unfolding starts_with_def
    by (metis append_eq_conv_conj append_take_drop_id)
  moreover have "(\<exists>xs ys. c # cs = xs @ p @ ys) \<longleftrightarrow>
     (\<exists>ys. c # cs = p @ ys) \<or> (\<exists>xs ys. cs = xs @ p @ ys)"
  proof
    assume "\<exists>xs ys. c # cs = xs @ p @ ys"
    then obtain xs ys where e: "c # cs = xs @ p @ ys" by blast
    show "(\<exists>ys. c # cs = p @ ys) \<or> (\<exists>xs ys. cs = xs @ p @ ys)"
    proof (cases xs)
      case Nil then show ?thesis using e by auto
    next
      case (Cons x xs') then show ?thesis using e by auto
    qed
  next
    assume "(\<exists>ys. c # cs = p @ ys) \<or> (\<exists>xs ys. cs = xs @ p @ ys)"
    then show "\<exists>xs ys. c # cs = xs @ p @ ys"
    proof
      assume "\<exists>ys. c # cs = p @ ys"
      then show ?thesis by (metis append_Nil)
    next
      assume "\<exists>xs ys. cs = xs @ p @ ys"
      then obtain xs ys where "cs = xs @ p @ ys" by blast
      then have "c # cs = (c # xs) @ p @ ys" by simp
      then show ?thesis by blast
    qed
  qed
  ultimately show ?case using Cons.IH by simp
qed

lemma update_plan_task_status_dict:
  assumes "store_ok s" and "db s parent = Some t"
    and "plan_tasks t = None \<or> (\<exists>d. plan_tasks t = Some (PlanTasksDict d))"
  shows "\<exists>s' t' d'. update_plan_task_status s parent k st now = (None, s') \<and>
           store_ok s' \<and> dom (db s') = dom (db s) \<and>
           db s' parent = Some t' \<and> plan_tasks t' = Some (PlanTasksDict d') \<and>
           map_of d' (str_nat k) = Some \<lparr>status = st, timestamp = now\<rparr>"
proof -
  obtain d where d: "(case plan_tasks t of None \<Rightarrow> PlanTasksDict [] | Some p \<Rightarrow> p) = PlanTasksDict d"
    using assms(3) by auto
  let ?d' = "dict_set (str_nat k) \<lparr>status = st, timestamp = now\<rparr> d"
  let ?t' = "t\<lparr>plan_tasks := Some (PlanTasksDict ?d')\<rparr>"
  have m: "map_of (dict_set a b kvs) a = Some b" for a :: string and b :: plan_task_status and kvs
    by (induction kvs) auto
  have p: "db s parent \<noteq> None" "parent \<in> dom (db s)" using assms(2) by auto
  have u: "update_plan_task_status s parent k st now = set_item s parent ?t'"
    using assms(2) d by (simp add: update_plan_task_status_def)
  obtain s' where s': "set_item s parent ?t' = (None, s')"
    using set_item_present(1) [OF assms(1) p(1), of ?t'] by (cases "set_item s parent ?t'") auto
  have "store_ok s'" using store_ok_set_item [OF assms(1), of parent ?t'] s' by simp
  moreover have "dom (db s') = dom (db s)"
    using set_item_existing [OF assms(1) p(2), of ?t'] s' p(2) by auto
  moreover have "db s' parent = Some ?t'"
    using set_item_present(2) [OF assms(1) p(1), of ?t'] s' by simp
  ultimately show ?thesis using u s' m by auto
qed

lemma plan_loop_head_skips:
  assumes "store_ok s" and "db s parent = Some t"
    and "plan_tasks t = None \<or> (\<exists>d. plan_tasks t = Some (PlanTasksDict d))"
    and "\<not> check_conditions pt task_results (int task_idx)"
  shows "\<exists>s'. plan_loop_head s parent pt task_idx task_results idx t1 t2 = Continue (idx + 1) s' \<and>
           plan_task_status_of s' parent task_idx = Some ''skipped'' \<and>
           dom (db s') = dom (db s)"
proof -
  obtain s1 t' d' where 1: "update_plan_task_status s parent task_idx ''scheduled'' t1 = (None, s1)"
    "store_ok s1" "dom (db s1) = dom (db s)" "db s1 parent = Some t'"
    "plan_tasks t' = Some (PlanTasksDict d')"
    using update_plan_task_status_dict [OF assms(1,2,3)] by blast
  have "plan_tasks t' = None \<or> (\<exists>d. plan_tasks t' = Some (PlanTasksDict d))" using 1(5) by simp
  from update_plan_task_status_dict [OF 1(2) 1(4) this, of task_idx "''skipped''" t2]
  obtain s2 t'' d'' where 2: "update_plan_task_status s1 parent task_idx ''skipped'' t2 = (None, s2)"
    "dom (db s2) = dom (db s1)" "db s2 parent = Some t''"
    "plan_tasks t'' = Some (PlanTasksDict d'')"
    "map_of d'' (str_nat task_idx) = Some \<lparr>status = ''skipped'', timestamp = t2\<rparr>"
    by blast
  show ?thesis
    using 1 2 assms(4) by (simp add: plan_loop_head_def plan_task_status_of_def)
qed

lemma plan_store_eq:
  "plan_store = \<lparr>db = [''p1'' \<mapsto> \<lparr>task_id = ''p1'', start_timestamp = 1000, end_timestamp = None,
        task_command = Some ''deploy'', execution_plan = Some ''deploy'',
        plan_tasks = Some (PlanTasksList []),
        success = [], running = [hostname_dict ''plan_deploy''], errors = []\<rparr>],
      order = [''p1''], tagged_for_removal = [], max_size = 100\<rparr>"
  by (simp add: plan_store_def create_task_def set_item_def empty_store_def falsy_def)

text \<open>
  Claim C6. \<open>_check_conditions\<close> is false in the three cases of the claim (lemmas
  above), and on a parent task whose \<open>plan_tasks\<close> is a dictionary the loop marks the
  task \<open>skipped\<close> and continues at the next item. But \<open>create_task\<close> stores
  \<open>plan_tasks = []\<close> for an execution plan, and on that parent task the status update
  raises \<open>TypeError\<close>: for the task with \<open>if_previous_command = 0\<close> at index 0
  (its condition is unmet) the iteration leaves the loop with the exception, and no
  status is recorded.
\<close>

theorem unmet_condition_on_created_plan_raises:
  "if_previous_command dependent_task = Some 0 \<and>
   \<not> check_conditions dependent_task Map.empty 0 \<and>
   plan_loop_head plan_store ''p1'' dependent_task 0 Map.empty 0 2000 2001 =
     Raise TypeError plan_store \<and>
   update_plan_task_status plan_store ''p1'' 0 ''skipped'' 2001 = (Some TypeError, plan_store) \<and>
   plan_task_status_of plan_store ''p1'' 0 = None"
  by (simp add: plan_store_eq dependent_task_def check_conditions_def plan_loop_head_def
      update_plan_task_status_def plan_task_status_of_def)


section \<open>Properties of the Wake-on-LAN packet\<close>

lemma replace_from_single_skip0:
  "replace_from [x] [] 0 s = filter (\<lambda>c. c \<noteq> x) s"
  by (induction s) (auto simp: starts_with_def)

lemma str_replace_delete_char: "str_replace s [x] [] = filter (\<lambda>c. c \<noteq> x) s"
  by (simp add: str_replace_def replace_from_single_skip0)

lemma strip_eq: "str_replace (str_replace mac '':'' '''') ''-'' '''' = mac_digits mac"
  by (simp add: str_replace_delete_char mac_digits_def conj_commute)

lemma is_hex_not_space: "is_hex c \<Longrightarrow> \<not> is_space c"
  by (auto simp: is_hex_def is_space_def hexval_def Let_def split: if_splits)

lemma of_char_char_of: "n < 256 \<Longrightarrow> (of_char (char_of n) :: nat) = n"
  by simp

lemma hexval_lower: "hexval c \<noteq> None \<Longrightarrow> hexval (to_lower c) = hexval c"
  by (auto simp: to_lower_def hexval_def Let_def split: if_splits)

lemma is_hex_lower: "is_hex c \<Longrightarrow> is_hex (to_lower c)"
  by (simp add: is_hex_def hexval_lower)

lemma hex_digit_lower: "is_hex c \<Longrightarrow> hex_digit (to_lower c) = hex_digit c"
  by (simp add: is_hex_def hex_digit_def hexval_lower)

lemma map_option_append_Nil: "map_option ((@) []) x = x"
  by (cases x) simp_all

lemma fromhex_hex_append:
  "\<lbrakk>\<forall>c \<in> set s. is_hex c; even (length s)\<rbrakk> \<Longrightarrow>
     fromhex (s @ t) = map_option ((@) (hex_pairs s)) (fromhex t)"
proof (induction s rule: hex_pairs.induct)
  case (1 a b cs)
  then have a: "is_hex a" "is_hex b" by simp_all
  then obtain hi lo where v: "hexval a = Some hi" "hexval b = Some lo"
    by (auto simp: is_hex_def)
  have "fromhex (cs @ t) = map_option ((@) (hex_pairs cs)) (fromhex t)" using 1 by simp
  then show ?case using a v is_hex_not_space [OF a(1)]
    by (simp add: hex_digit_def option.map_comp comp_def)
qed (simp_all add: map_option_append_Nil)

lemma hex_pairs_append:
  "even (length s) \<Longrightarrow> hex_pairs (s @ t) = hex_pairs s @ hex_pairs t"
  by (induction s rule: hex_pairs.induct) simp_all

lemma hex_pairs_concat_replicate:
  "even (length m) \<Longrightarrow> hex_pairs (concat (replicate n m)) = concat (replicate n (hex_pairs m))"
  by (induction n) (simp_all add: hex_pairs_append)

lemma hex_pairs_lower:
  "\<forall>c \<in> set s. is_hex c \<Longrightarrow> hex_pairs (lower s) = hex_pairs s"
  by (induction s rule: hex_pairs.induct) (simp_all add: lower_def hex_digit_lower)

lemma length_hex_pairs: "length (hex_pairs s) = length s div 2"
  by (induction s rule: hex_pairs.induct) simp_all

lemma fromhex_hex:
  "\<lbrakk>\<forall>c \<in> set s. is_hex c; even (length s)\<rbrakk> \<Longrightarrow> fromhex s = Some (hex_pairs s)"
  using fromhex_hex_append [of s "[]"] by simp

lemma of_char_to_lower:
  "(of_char (to_lower c) :: nat) =
     (if 65 \<le> (of_char c :: nat) \<and> (of_char c :: nat) \<le> 90 then of_char c + 32 else of_char c)"
  by (simp add: to_lower_def Let_def)

lemma to_lower_separator: "to_lower c = CHR '':'' \<longleftrightarrow> c = CHR '':''"
  "to_lower c = CHR ''-'' \<longleftrightarrow> c = CHR ''-''"
proof -
  have a: "x = y \<longleftrightarrow> (of_char x :: nat) = of_char y" for x y :: char
    by simp
  show "to_lower c = CHR '':'' \<longleftrightarrow> c = CHR '':''"
    unfolding a [of "to_lower c"] a [of c] of_char_to_lower by auto
  show "to_lower c = CHR ''-'' \<longleftrightarrow> c = CHR ''-''"
    unfolding a [of "to_lower c"] a [of c] of_char_to_lower by auto
qed

lemma mac_digits_lower: "mac_digits (lower mac) = lower (mac_digits mac)"
  by (induction mac) (auto simp: mac_digits_def lower_def to_lower_separator)

lemma to_lower_idem: "to_lower (to_lower c) = to_lower c"
  by (auto simp: to_lower_def Let_def)

lemma send_wol_lower: "send_wol (lower mac) = send_wol mac"
proof -
  have "lower (lower s) = lower s" for s by (simp add: lower_def to_lower_idem)
  then show ?thesis by (simp add: send_wol_def strip_eq mac_digits_lower)
qed

text \<open>
  Claim C7. For a MAC address of 12 hexadecimal digits with any \<open>:\<close> and \<open>-\<close>
  separators, \<open>send_wol\<close> raises nothing and sends one datagram to
  \<open>255.255.255.255\<close>, port 9, with \<open>SO_BROADCAST\<close> set, whose 102 bytes are six
  \<open>0xFF\<close> and then sixteen times the six bytes of the address; addresses that differ
  only in letter case give the same datagram.
\<close>

theorem send_wol_magic_packet:
  assumes "length (mac_digits mac) = 12" and "\<forall>c \<in> set (mac_digits mac). is_hex c"
  shows "send_wol mac =
           Inr \<lparr>packet = replicate 6 0xFF @ concat (replicate 16 (hex_pairs (mac_digits mac))),
                dest_host = ''255.255.255.255'', dest_port = 9, so_broadcast = True\<rparr> \<and>
         length (hex_pairs (mac_digits mac)) = 6 \<and>
         length (replicate 6 (0xFF :: byte) @ concat (replicate 16 (hex_pairs (mac_digits mac)))) = 102 \<and>
         (\<forall>mac'. lower mac' = lower mac \<longrightarrow> send_wol mac' = send_wol mac)"
proof -
  let ?m = "lower (mac_digits mac)"
  have hexm: "\<forall>c \<in> set ?m. is_hex c" using assms(2) by (auto simp: lower_def is_hex_lower)
  have evm: "even (length ?m)" using assms(1) by (simp add: lower_def)
  have l6: "length (hex_pairs (mac_digits mac)) = 6"
    using assms(1) by (simp add: length_hex_pairs)
  have ff: "\<forall>c \<in> set (concat (replicate 6 ''FF'')). is_hex c"
    by (simp add: is_hex_def hexval_def)
  have ffp: "hex_pairs (concat (replicate 6 ''FF'')) = replicate 6 0xFF"
    by (simp add: numeral_eq_Suc hex_digit_def hexval_def)
  have rest: "fromhex (concat (replicate 16 ?m)) = Some (concat (replicate 16 (hex_pairs (mac_digits mac))))"
  proof -
    have "\<forall>c \<in> set (concat (replicate 16 ?m)). is_hex c" using hexm by auto
    moreover have "even (length (concat (replicate 16 ?m)))" using evm
      by (simp add: length_concat sum_list_replicate)
    ultimately have "fromhex (concat (replicate 16 ?m)) = Some (hex_pairs (concat (replicate 16 ?m)))"
      by (rule fromhex_hex)
    then show ?thesis using assms(2) evm
      by (simp add: hex_pairs_concat_replicate hex_pairs_lower)
  qed
  have "fromhex (concat (replicate 6 ''FF'') @ concat (replicate 16 ?m)) =
          Some (replicate 6 0xFF @ concat (replicate 16 (hex_pairs (mac_digits mac))))"
  proof -
    have ev: "even (length (concat (replicate 6 ''FF'')))"
      by (simp add: length_concat sum_list_replicate)
    show ?thesis
      unfolding fromhex_hex_append [OF ff ev] rest ffp by simp
  qed
  then have 1: "send_wol mac =
           Inr \<lparr>packet = replicate 6 0xFF @ concat (replicate 16 (hex_pairs (mac_digits mac))),
                dest_host = ''255.255.255.255'', dest_port = 9, so_broadcast = True\<rparr>"
    by (simp add: send_wol_def strip_eq)
  have 3: "length (replicate 6 (0xFF :: byte) @ concat (replicate 16 (hex_pairs (mac_digits mac)))) = 102"
    using l6 by (simp add: length_concat sum_list_replicate)
  have 4: "\<forall>mac'. lower mac' = lower mac \<longrightarrow> send_wol mac' = send_wol mac"
    by (metis send_wol_lower)
  from 1 l6 3 4 show ?thesis by blast
qed

lemma example_mac: "mac_digits ''aa:BB:cc:DD:ee:0F'' = ''aaBBccDDee0F''"
  by (simp add: mac_digits_def)

theorem send_wol_magic_packet_witness:
  "length (mac_digits ''aa:BB:cc:DD:ee:0F'') = 12 \<and>
   send_wol ''aa:BB:cc:DD:ee:0F'' =
     Inr \<lparr>packet = replicate 6 0xFF @ concat (replicate 16 [0xAA, 0xBB, 0xCC, 0xDD, 0xEE, 0x0F]),
          dest_host = ''255.255.255.255'', dest_port = 9, so_broadcast = True\<rparr>"
proof -
  have h1: "length (mac_digits ''aa:BB:cc:DD:ee:0F'') = 12" by (simp add: example_mac)
  have h2: "\<forall>c \<in> set (mac_digits ''aa:BB:cc:DD:ee:0F''). is_hex c"
    by (simp add: example_mac is_hex_def hexval_def)
  have p: "hex_pairs (mac_digits ''aa:BB:cc:DD:ee:0F'') = [0xAA, 0xBB, 0xCC, 0xDD, 0xEE, 0x0F]"
    by (simp add: example_mac hex_digit_def hexval_def)
  show ?thesis
    using send_wol_magic_packet [OF h1 h2, THEN conjunct1] h1 by (simp add: p)
qed


section \<open>Properties of the frame codec\<close>

lemma be_nat_be_bytes_gen:
  "foldl (\<lambda>acc b. acc * 256 + unat (b :: byte)) a (be_bytes k n) = a * 256 ^ k + n mod 256 ^ k"
proof (induction k arbitrary: a)
  case 0
  then show ?case by simp
next
  case (Suc k)
  have u: "unat (of_nat (n div 256 ^ k) :: byte) = n div 256 ^ k mod 256"
    by (simp add: unat_of_nat)
  have "n mod (256 ^ k * 256) = 256 ^ k * (n div 256 ^ k mod 256) + n mod 256 ^ k"
    by (rule mod_mult2_eq)
  then have m: "n mod 256 ^ Suc k = 256 ^ k * (n div 256 ^ k mod 256) + n mod 256 ^ k"
    by (simp add: mult.commute)
  have "foldl (\<lambda>acc b. acc * 256 + unat (b :: byte)) a (be_bytes (Suc k) n) =
        foldl (\<lambda>acc b. acc * 256 + unat (b :: byte)) (a * 256 + n div 256 ^ k mod 256) (be_bytes k n)"
    by (simp add: u)
  also have "\<dots> = (a * 256 + n div 256 ^ k mod 256) * 256 ^ k + n mod 256 ^ k"
    by (rule Suc)
  also have "\<dots> = a * 256 ^ Suc k + n mod 256 ^ Suc k"
    unfolding m by (simp add: algebra_simps)
  finally show ?case .
qed

lemma be_nat_be_bytes: "n < 256 ^ k \<Longrightarrow> be_nat (be_bytes k n) = n"
  by (simp add: be_nat_def be_nat_be_bytes_gen)

lemma length_be_bytes: "length (be_bytes k n) = k"
  by (induction k) simp_all

lemma opcode_bits:
  assumes "opcode < 16"
  shows "(0x80 OR opcode) = 128 + opcode"
    and "drop_bit 7 (128 + opcode) AND 1 = (1::nat)"
    and "(128 + opcode) AND 0x0f = opcode"
proof -
  have c: "opcode \<in> {0,1,2,3,4,5,6,7,8,9,10,11,12,13,14,15}" using assms by simp arith
  from c show "(0x80 OR opcode) = 128 + opcode" by (elim insertE emptyE) simp_all
  from c show "drop_bit 7 (128 + opcode) AND 1 = (1::nat)" by (elim insertE emptyE) simp_all
  from c show "(128 + opcode) AND 0x0f = opcode" by (elim insertE emptyE) simp_all
qed

lemma len_bits:
  assumes "n < 128"
  shows "drop_bit 7 n AND 1 = (0::nat)" and "n AND 0x7f = n"
    and "drop_bit 7 (128 + n) AND 1 = (1::nat)" and "(128 + n) AND 0x7f = n"
proof -
  have m: "(0x7f :: nat) = mask 7" by (simp add: mask_eq_exp_minus_1)
  show "drop_bit 7 n AND 1 = (0::nat)" using assms by (simp add: drop_bit_eq_div)
  show "n AND 0x7f = n" using assms unfolding m by (simp add: take_bit_eq_mask [symmetric] take_bit_eq_mod)
  show "drop_bit 7 (128 + n) AND 1 = (1::nat)" using assms by (simp add: drop_bit_eq_div and_one_eq)
  show "(128 + n) AND 0x7f = n" using assms unfolding m by (simp add: take_bit_eq_mask [symmetric] take_bit_eq_mod)
qed

lemma recv_payload_exact:
  "recv_payload (length acc + length p) acc (p @ rest) = Some (acc @ p, rest)"
proof (induction "length p" arbitrary: acc p rule: less_induct)
  case less
  show ?case
  proof (cases "p = []")
    case True
    then show ?thesis by (simp add: recv_payload.simps [of _ acc])
  next
    case False
    let ?n = "min 4096 (length p)"
    have n: "0 < ?n" "?n \<le> length p" using False by auto
    have t: "take ?n (p @ rest) = take ?n p" "drop ?n (p @ rest) = drop ?n p @ rest"
      using n by simp_all
    have ne: "take ?n p \<noteq> []" using n False by auto
    have l: "length (drop ?n p) < length p" using n by simp
    have e: "length acc + length p = length (acc @ take ?n p) + length (drop ?n p)"
      using n by simp
    have k: "min 4096 (length acc + length p - length acc) = ?n" by simp
    have lt: "length acc < length acc + length p" using False by simp
    have "recv_payload (length acc + length p) acc (p @ rest) =
          recv_payload (length acc + length p) (acc @ take ?n p) (drop ?n p @ rest)"
      unfolding recv_payload.simps [of "length acc + length p" acc "p @ rest"] k t
      using lt ne by (simp only: if_True if_False)
    also have "\<dots> = Some ((acc @ take ?n p) @ drop ?n p, rest)"
      unfolding e by (rule less [OF l])
    finally show ?thesis by simp
  qed
qed

lemma xor_mask_gen:
  "map (\<lambda>(i, b). b XOR k ! (i mod 4)) (enumerate n (map (\<lambda>(i, b). b XOR k ! (i mod 4)) (enumerate n p))) = p"
  for k :: "byte list"
  by (induction p arbitrary: n) (simp_all add: xor.assoc)

lemma xor_mask_involution: "xor_mask k (xor_mask k p) = p"
  by (simp add: xor_mask_def xor_mask_gen)

lemma length_xor_mask: "length (xor_mask k p) = length p"
  by (simp add: xor_mask_def)

lemma recv_payload_all:
  "recv_payload (length p) [] (p @ rest) = Some (p, rest)"
  using recv_payload_exact [of "[]" p rest] by simp

lemma recv_length_field:
  assumes "len < 2 ^ 64" and "m = 0 \<or> m = 128"
  shows "\<exists>b2 ext. length_field m len = of_nat b2 # ext \<and> b2 < 256 \<and>
           drop_bit 7 b2 AND 1 = (if m = 0 then 0 else 1) \<and>
           recv_length (b2 AND 0x7f) (ext @ rest) = Some (len, rest)"
proof -
  consider (small) "len < 126" | (mid) "126 \<le> len" "len < 65536" | (big) "65536 \<le> len"
    by linarith
  then show ?thesis
  proof cases
    case small
    then have "len < 128" by simp
    from len_bits [OF this] small assms(2) show ?thesis
      by (intro exI [of _ "m + len"] exI [of _ "[]"])
         (auto simp: length_field_def recv_length_def)
  next
    case mid
    have b: "be_nat (be_bytes 2 len) = len" using mid by (intro be_nat_be_bytes) simp
    have "(126::nat) < 128" by simp
    from len_bits [OF this] mid assms(2) b show ?thesis
      by (intro exI [of _ "m + 126"] exI [of _ "be_bytes 2 len"])
         (auto simp: length_field_def recv_length_def recv_def length_be_bytes)
  next
    case big
    have b: "be_nat (be_bytes 8 len) = len" using assms(1) by (intro be_nat_be_bytes) simp
    have "(127::nat) < 128" by simp
    from len_bits [OF this] big assms(2) b show ?thesis
      by (intro exI [of _ "m + 127"] exI [of _ "be_bytes 8 len"])
         (auto simp: length_field_def recv_length_def recv_def length_be_bytes)
  qed
qed

lemma unat_byte: "n < 256 \<Longrightarrow> unat (of_nat n :: byte) = n"
  using unat_of_nat [where 'a = 8, of n] by simp

lemma unat_header_byte: "opcode < 16 \<Longrightarrow> unat (128 + of_nat opcode :: byte) = 128 + opcode"
  using unat_byte [of "128 + opcode"] by simp

lemma send_frame_bytes:
  assumes "opcode < 16" and "length payload < 2 ^ 64"
  shows "send_frame payload opcode =
           Some (of_nat (128 + opcode) # length_field 0 (length payload) @ payload)"
proof -
  have o: "(0x80 OR opcode) = 128 + opcode" using assms(1) by (rule opcode_bits)
  have p2: "length payload < 65536 \<Longrightarrow> struct_pack 2 (length payload) = Some (be_bytes 2 (length payload))"
    by (simp add: struct_pack_def)
  have p8: "struct_pack 8 (length payload) = Some (be_bytes 8 (length payload))"
    using assms(2) by (simp add: struct_pack_def)
  show ?thesis
    using assms(1) p2 p8 unfolding send_frame_def o Let_def length_field_def
    by simp
qed

lemma recv_frame_unmasked:
  assumes "opcode < 16" and "length payload < 2 ^ 64"
  shows "recv_frame (of_nat (128 + opcode) # length_field 0 (length payload) @ payload @ rest) =
           Some ((1, opcode, payload), rest)"
proof -
  obtain b2 ext where f: "length_field 0 (length payload) = of_nat b2 # ext" "b2 < 256"
    "drop_bit 7 b2 AND 1 = 0"
    "recv_length (b2 AND 0x7f) (ext @ payload @ rest) = Some (length payload, payload @ rest)"
    using recv_length_field [OF assms(2), of 0 "payload @ rest"] by auto
  have u1: "unat (128 + of_nat opcode :: byte) = 128 + opcode"
    using assms(1) by (rule unat_header_byte)
  have u2: "unat (of_nat b2 :: byte) = b2" using f(2) by (rule unat_byte)
  note ob = opcode_bits(2,3) [OF assms(1)]
  show ?thesis
    unfolding recv_frame_def f(1)
    using ob f(3)
    by (simp add: recv_def Let_def u1 u2 f(4) recv_payload_all)
qed

lemma recv_frame_masked:
  assumes "opcode < 16" and "length payload < 2 ^ 64" and "length mask_key = 4"
  shows "recv_frame (client_frame opcode mask_key payload @ rest) =
           Some ((1, opcode, payload), rest)"
proof -
  let ?body = "xor_mask mask_key payload"
  obtain b2 ext where f: "length_field 128 (length payload) = of_nat b2 # ext" "b2 < 256"
    "drop_bit 7 b2 AND 1 = 1"
    "recv_length (b2 AND 0x7f) (ext @ mask_key @ ?body @ rest) =
       Some (length payload, mask_key @ ?body @ rest)"
    using recv_length_field [OF assms(2), of 128 "mask_key @ ?body @ rest"] by auto
  have u1: "unat (128 + of_nat opcode :: byte) = 128 + opcode"
    using assms(1) by (rule unat_header_byte)
  have u2: "unat (of_nat b2 :: byte) = b2" using f(2) by (rule unat_byte)
  note ob = opcode_bits(2,3) [OF assms(1)]
  have rp: "recv_payload (length payload) [] (?body @ rest) = Some (?body, rest)"
    using recv_payload_all [of ?body rest] by (simp add: length_xor_mask)
  have um: "unmask mask_key ?body = Some payload"
    using assms(3) by (simp add: unmask_def xor_mask_involution length_xor_mask)
  have ne: "mask_key \<noteq> []" using assms(3) by auto
  show ?thesis
    unfolding recv_frame_def client_frame_def f(1)
    using assms(3) ne ob f(3)
    by (simp add: recv_def Let_def u1 u2 f(4) rp um)
qed

text \<open>
  Claim C8. For an opcode (four bits) and a payload shorter than \<open>2 ^ 64\<close> bytes,
  \<open>_send_frame\<close> sends the byte \<open>0x80 | opcode\<close>, the unmasked length field (one byte
  below 126, 126 and two big-endian bytes below 65536, else 127 and eight big-endian
  bytes) and the payload; \<open>_recv_frame\<close> reads from these bytes \<open>fin = 1\<close>, the same
  opcode and the same payload, and leaves the rest of the stream; and from a masked
  client frame with a four-byte key it recovers the payload that the client XOR-ed
  with \<open>mask_key[i mod 4]\<close>.
\<close>

theorem frame_codec_round_trip:
  assumes "opcode < 16" and "length payload < 2 ^ 64"
  shows "send_frame payload opcode =
           Some (of_nat (128 + opcode) # length_field 0 (length payload) @ payload) \<and>
         (\<forall>frame rest. send_frame payload opcode = Some frame \<longrightarrow>
            recv_frame (frame @ rest) = Some ((1, opcode, payload), rest)) \<and>
         (\<forall>mask_key rest. length mask_key = 4 \<longrightarrow>
            recv_frame (client_frame opcode mask_key payload @ rest) =
              Some ((1, opcode, payload), rest))"
  using send_frame_bytes [OF assms] recv_frame_unmasked [OF assms] recv_frame_masked [OF assms]
  by simp

theorem frame_codec_round_trip_witness:
  "(2::nat) < 16 \<and> length [1, 2, 3 :: byte] < 2 ^ 64 \<and>
   send_frame [1, 2, 3] 2 = Some [0x82, 3, 1, 2, 3] \<and>
   recv_frame [0x82, 3, 1, 2, 3] = Some ((1, 2, [1, 2, 3]), []) \<and>
   client_frame 2 [0xFF, 0, 0xFF, 0] [1, 2, 3] = [0x82, 0x83, 0xFF, 0, 0xFF, 0, 0xFE, 2, 0xFC] \<and>
   recv_frame [0x82, 0x83, 0xFF, 0, 0xFF, 0, 0xFE, 2, 0xFC] = Some ((1, 2, [1, 2, 3]), [])"
proof -
  have h1: "(2::nat) < 16" by simp
  have h2: "length [1, 2, 3 :: byte] < 2 ^ 64" by simp
  note t = frame_codec_round_trip [OF h1 h2]
  have s: "send_frame [1, 2, 3] 2 = Some [0x82, 3, 1, 2, 3]"
    using t [THEN conjunct1] by (simp add: length_field_def)
  have r: "recv_frame ([0x82, 3, 1, 2, 3] @ []) = Some ((1, 2, [1, 2, 3]), [])"
    using t [THEN conjunct2, THEN conjunct1, rule_format, OF s] .
  have c: "client_frame 2 [0xFF, 0, 0xFF, 0] [1, 2, 3] = [0x82, 0x83, 0xFF, 0, 0xFF, 0, 0xFE, 2, 0xFC]"
    by (simp add: client_frame_def length_field_def xor_mask_def)
  have k: "length [0xFF, 0, 0xFF, 0 :: byte] = 4" by simp
  have m: "recv_frame (client_frame 2 [0xFF, 0, 0xFF, 0] [1, 2, 3] @ []) = Some ((1, 2, [1, 2, 3]), [])"
    using t [THEN conjunct2, THEN conjunct2, rule_format, OF k] .
  show ?thesis using h2 s r c m by simp
qed


section \<open>Properties of the tokens\<close>

lemma str_split_nonempty: "str_split sep s \<noteq> []"
  by (induction s) (auto split: list.splits)

lemma str_split_no_sep: "sep \<notin> set a \<Longrightarrow> str_split sep a = [a]"
  by (induction a) (auto split: list.splits)

lemma str_split_field:
  "sep \<notin> set a \<Longrightarrow> str_split sep (a @ sep # rest) = a # str_split sep rest"
  by (induction a) (auto split: list.splits)

lemma digit_char_props:
  assumes "d < 10"
  shows "is_digit (digit_char d)" and "digit_value (digit_char d) = d"
    and "digit_char d \<noteq> CHR '':''" and "\<not> is_unicode_space (digit_char d)"
    and "digit_char d \<noteq> CHR ''-''" and "digit_char d \<noteq> CHR ''+''"
proof -
  have o: "(of_char (digit_char d) :: nat) = 48 + d"
    using assms by (simp add: digit_char_def)
  have a: "x = y \<longleftrightarrow> (of_char x :: nat) = of_char y" for x y :: char by simp
  show "is_digit (digit_char d)" using assms by (simp add: is_digit_def o)
  show "digit_value (digit_char d) = d" by (simp add: digit_value_def o)
  show "digit_char d \<noteq> CHR '':''" unfolding a o using assms by simp
  show "\<not> is_unicode_space (digit_char d)" using assms by (simp add: is_unicode_space_def o)
  show "digit_char d \<noteq> CHR ''-''" unfolding a o using assms by simp
  show "digit_char d \<noteq> CHR ''+''" unfolding a o using assms by simp
qed

lemma str_nat_digits: "\<forall>c \<in> set (str_nat n). is_digit c"
proof (induction n rule: str_nat.induct)
  case (1 n)
  show ?case
  proof (cases "n < 10")
    case True
    then show ?thesis by (subst str_nat.simps) (simp add: digit_char_props)
  next
    case False
    then show ?thesis using 1 by (subst str_nat.simps) (simp add: digit_char_props)
  qed
qed

lemma str_nat_nonempty: "str_nat n \<noteq> []"
  by (subst str_nat.simps) simp

lemma digits_value_digits:
  "\<lbrakk>\<forall>c \<in> set ds. is_digit c; prev \<or> ds \<noteq> []\<rbrakk> \<Longrightarrow>
     digits_value acc prev ds = Some (foldl (\<lambda>a c. a * 10 + digit_value c) acc ds)"
  by (induction ds arbitrary: acc prev) auto

lemma foldl_str_nat: "foldl (\<lambda>a c. a * 10 + digit_value c) acc (str_nat n) = acc * 10 ^ length (str_nat n) + n"
proof (induction n arbitrary: acc rule: str_nat.induct)
  case (1 n)
  show ?case
  proof (cases "n < 10")
    case True
    then show ?thesis by (subst (1 2) str_nat.simps) (simp add: digit_char_props)
  next
    case False
    have s: "str_nat n = str_nat (n div 10) @ [digit_char (n mod 10)]"
      using False by (subst str_nat.simps) simp
    show ?thesis
      unfolding s using 1 [OF False] by (simp add: digit_char_props algebra_simps)
  qed
qed

lemma digits_value_str_nat: "digits_value 0 False (str_nat n) = Some n"
  using digits_value_digits [OF str_nat_digits, of False n 0] str_nat_nonempty [of n]
  by (simp add: foldl_str_nat)

lemma is_digit_not_space: "is_digit c \<Longrightarrow> \<not> is_unicode_space c"
  by (auto simp: is_digit_def is_unicode_space_def)

lemma is_digit_not_sign: "is_digit c \<Longrightarrow> c \<noteq> CHR ''-'' \<and> c \<noteq> CHR ''+'' \<and> c \<noteq> CHR '':''"
  by (auto simp: is_digit_def)

lemma str_strip_id:
  assumes "s \<noteq> []" "\<not> is_unicode_space (hd s)" "\<not> is_unicode_space (last s)"
  shows "str_strip s = s"
proof -
  have 1: "dropWhile is_unicode_space s = s" using assms by (cases s) auto
  have "rev s \<noteq> []" "\<not> is_unicode_space (hd (rev s))" using assms by (simp_all add: hd_rev)
  then have 2: "dropWhile is_unicode_space (rev s) = rev s" by (cases "rev s") auto
  show ?thesis by (simp add: str_strip_def 1 2)
qed

lemma py_int_str_int: "py_int (str_int i) = Some i"
proof (cases "i < 0")
  case True
  let ?d = "str_nat (nat (- i))"
  have d: "?d \<noteq> []" "\<forall>c \<in> set ?d. is_digit c" using str_nat_nonempty str_nat_digits by auto
  then have "is_digit (last ?d)" by simp
  then have "\<not> is_unicode_space (last (CHR ''-'' # ?d))" using d(1) by (simp add: is_digit_not_space)
  moreover have "\<not> is_unicode_space CHR ''-''" by (simp add: is_unicode_space_def)
  ultimately have "str_strip (CHR ''-'' # ?d) = CHR ''-'' # ?d"
    by (intro str_strip_id) simp_all
  then show ?thesis using True by (simp add: py_int_def str_int_def digits_value_str_nat)
next
  case False
  let ?d = "str_nat (nat i)"
  have d: "?d \<noteq> []" "\<forall>c \<in> set ?d. is_digit c" using str_nat_nonempty str_nat_digits by auto
  then have "is_digit (last ?d)" "is_digit (hd ?d)" by simp_all
  then have "str_strip ?d = ?d" using d(1) by (intro str_strip_id) (simp_all add: is_digit_not_space)
  moreover obtain c cs where c: "?d = c # cs" using d(1) by (cases ?d) auto
  moreover have "is_digit c" using d(2) c by simp
  ultimately show ?thesis using False is_digit_not_sign [of c] digits_value_str_nat [of "nat i"]
    by (simp add: py_int_def str_int_def)
qed

lemma str_int_no_colon: "CHR '':'' \<notin> set (str_int i)"
  using str_nat_digits is_digit_not_sign by (auto simp: str_int_def)

lemma verify_token_signed:
  assumes "b64decode token = Some (msg @ sig)" and "length sig = 32" and "hmac secret msg = sig"
    and "str_split CHR '':'' msg = [user, tid, host, e, nonce]" and "py_int e = Some exp"
  shows "verify_token hmac b64decode secret used now token =
           (if now > exp then (Inl TokenExpired, clean_nonces used now)
            else if clean_nonces used now nonce \<noteq> None
              then (Inl TokenReplay, clean_nonces used now)
            else (Inr (user, tid, host), (clean_nonces used now)(nonce \<mapsto> exp)))"
  using assms by (simp add: verify_token_def Let_def)

lemma verify_token_expired:
  assumes "b64decode token = Some (msg @ sig)" and "length sig = 32" and "hmac secret msg = sig"
    and "str_split CHR '':'' msg = [user, tid, host, e, nonce]" and "py_int e = Some exp"
    and "now > exp"
  shows "fst (verify_token hmac b64decode secret used now token) = Inl TokenExpired"
  using assms(6) by (simp add: verify_token_signed [where b64decode = b64decode and token = token and hmac = hmac and secret = secret, OF assms(1-5)])

lemma verify_token_replay_before_exp:
  assumes "b64decode token = Some (msg @ sig)" and "length sig = 32" and "hmac secret msg = sig"
    and "str_split CHR '':'' msg = [user, tid, host, e, nonce]" and "py_int e = Some exp"
    and "used nonce = Some exp" and "now < exp"
  shows "fst (verify_token hmac b64decode secret used now token) = Inl TokenReplay"
  using assms(6,7) by (simp add: verify_token_signed [where b64decode = b64decode and token = token and hmac = hmac and secret = secret, OF assms(1-5)] clean_nonces_def)

lemma verify_token_accepts:
  assumes "b64decode token = Some (msg @ sig)" and "length sig = 32" and "hmac secret msg = sig"
    and "str_split CHR '':'' msg = [user, tid, host, e, nonce]" and "py_int e = Some exp"
    and "now \<le> exp" and "used nonce = None"
  shows "verify_token hmac b64decode secret used now token =
           (Inr (user, tid, host), (clean_nonces used now)(nonce \<mapsto> exp))"
  using assms(6,7) by (simp add: verify_token_signed [where b64decode = b64decode and token = token and hmac = hmac and secret = secret, OF assms(1-5)] clean_nonces_def)

lemma clean_nonces_drops_expired:
  "clean_nonces used now n = Some e \<longleftrightarrow> used n = Some e \<and> e > now"
  by (auto simp: clean_nonces_def split: option.splits)

text \<open>
  Claim C5. A token with a valid signature is rejected as expired when \<open>now > exp\<close>,
  rejected as a replay when its nonce is in the table and \<open>now < exp\<close>, and accepted
  with its nonce recorded otherwise (lemmas above). But the table is cleaned with
  \<open>e > now\<close> while expiry is \<open>now > exp\<close>: in the second \<open>now = exp\<close> the token has not
  expired and its nonce has already been dropped. A token that was accepted once (at
  any time up to \<open>exp\<close>) is accepted again when presented at \<open>now = exp\<close>.
\<close>

theorem replay_accepted_in_expiry_second:
  assumes "b64decode token = Some (msg @ sig)" and "length sig = 32" and "hmac secret msg = sig"
    and "str_split CHR '':'' msg = [user, tid, host, e, nonce]" and "py_int e = Some exp"
    and "fst (verify_token hmac b64decode secret used now token) = Inr (user, tid, host)"
  shows "now \<le> exp \<and>
         snd (verify_token hmac b64decode secret used now token) nonce = Some exp \<and>
         fst (verify_token hmac b64decode secret
                (snd (verify_token hmac b64decode secret used now token)) exp token) =
           Inr (user, tid, host)"
proof -
  note v = verify_token_signed [where b64decode = b64decode and token = token and hmac = hmac and secret = secret, OF assms(1-5)]
  from assms(6) have a: "now \<le> exp" "clean_nonces used now nonce = None"
    by (auto simp: v split: if_splits)
  then have s: "snd (verify_token hmac b64decode secret used now token) =
                  (clean_nonces used now)(nonce \<mapsto> exp)"
    by (simp add: v)
  have "clean_nonces ((clean_nonces used now)(nonce \<mapsto> exp)) exp nonce = None"
    by (simp add: clean_nonces_def)
  then show ?thesis using a unfolding s
    by (simp add: v)
qed

theorem replay_accepted_in_expiry_second_witness:
  "fst (verify_token example_hmac example_b64decode ''k'' Map.empty 100
          (example_msg @ replicate 32 CHR ''#'')) = Inr (''api_user'', ''t1'', ''nas'') \<and>
   fst (verify_token example_hmac example_b64decode ''k''
          (snd (verify_token example_hmac example_b64decode ''k'' Map.empty 100
                  (example_msg @ replicate 32 CHR ''#'')))
          130 (example_msg @ replicate 32 CHR ''#'')) = Inr (''api_user'', ''t1'', ''nas'')"
proof -
  let ?token = "example_msg @ replicate 32 CHR ''#''"
  have h1: "example_b64decode ?token = Some (example_msg @ replicate 32 CHR ''#'')"
    by (simp add: example_b64decode_def)
  have h2: "length (replicate 32 CHR ''#'') = 32" by simp
  have h3: "example_hmac ''k'' example_msg = replicate 32 CHR ''#''"
    by (simp add: example_hmac_def)
  have h4: "str_split CHR '':'' example_msg = [''api_user'', ''t1'', ''nas'', ''130'', ''n0nce'']"
    by (simp add: example_msg_def)
  have h5: "py_int ''130'' = Some 130"
    by (simp add: py_int_def str_strip_def is_unicode_space_def is_digit_def digit_value_def)
  have h6: "fst (verify_token example_hmac example_b64decode ''k'' Map.empty 100 ?token) =
              Inr (''api_user'', ''t1'', ''nas'')"
    by (simp add: verify_token_signed [where b64decode = example_b64decode and token = "example_msg @ replicate 32 CHR ''#''" and hmac = example_hmac and secret = "''k''", OF h1 h2 h3 h4 h5] clean_nonces_def)
  from replay_accepted_in_expiry_second [where b64decode = example_b64decode and token = "example_msg @ replicate 32 CHR ''#''" and hmac = example_hmac and secret = "''k''", OF h1 h2 h3 h4 h5 h6] h6
  show ?thesis by simp
qed

lemma token_message_split:
  assumes "CHR '':'' \<notin> set user" and "CHR '':'' \<notin> set tid" and "CHR '':'' \<notin> set host"
    and "CHR '':'' \<notin> set e" and "CHR '':'' \<notin> set nonce"
  shows "str_split CHR '':'' (user @ '':'' @ tid @ '':'' @ host @ '':'' @ e @ '':'' @ nonce) =
           [user, tid, host, e, nonce]"
  using assms by (simp add: str_split_field str_split_no_sep)

text \<open>
  Claim C10. With user id, task id, hostname (and nonce) free of \<open>:\<close>, a token
  from \<open>issue_token\<close>, verified not later than its expiry \<open>now + token_ttl\<close> and with
  its nonce not in the table, yields exactly the triple it was issued for, and the
  nonce is recorded with the expiry. (For the library: decoding inverts encoding and a
  digest has 32 bytes.) With a colon in the user id the fields shift, as
  \<open>colon_in_user_breaks_round_trip\<close> shows.
\<close>

theorem issued_token_verifies:
  assumes "\<And>raw. b64decode (b64encode raw) = Some raw"
    and "\<And>k m. length (hmac k m) = 32"
    and "CHR '':'' \<notin> set user" and "CHR '':'' \<notin> set tid" and "CHR '':'' \<notin> set host"
    and "CHR '':'' \<notin> set nonce"
    and "t \<le> now + token_ttl" and "used nonce = None"
  shows "verify_token hmac b64decode secret used t
           (issue_token hmac b64encode secret token_ttl now nonce user tid host) =
         (Inr (user, tid, host), (clean_nonces used t)(nonce \<mapsto> now + token_ttl))"
proof -
  let ?e = "str_int (now + token_ttl)"
  let ?msg = "user @ '':'' @ tid @ '':'' @ host @ '':'' @ ?e @ '':'' @ nonce"
  let ?sig = "hmac secret ?msg"
  have tok: "issue_token hmac b64encode secret token_ttl now nonce user tid host =
               b64encode (?msg @ ?sig)"
    by (simp add: issue_token_def Let_def)
  have h1: "b64decode (b64encode (?msg @ ?sig)) = Some (?msg @ ?sig)" by (rule assms(1))
  have h2: "length ?sig = 32" by (rule assms(2))
  have h4: "str_split CHR '':'' ?msg = [user, tid, host, ?e, nonce]"
    by (rule token_message_split [OF assms(3) assms(4) assms(5) str_int_no_colon assms(6)])
  have h5: "py_int ?e = Some (now + token_ttl)" by (rule py_int_str_int)
  show ?thesis
    unfolding tok
    by (rule verify_token_accepts [where b64decode = b64decode
          and token = "b64encode (?msg @ ?sig)" and hmac = hmac and secret = secret
          and msg = "?msg" and sig = "?sig" and used = used and nonce = nonce and now = t,
          OF h1 h2 refl h4 h5 assms(7) assms(8)])
qed

theorem issued_token_verifies_witness:
  "verify_token example_hmac example_b64decode ''k'' Map.empty 120
     (issue_token example_hmac example_b64encode ''k'' 30 100 ''n0nce'' ''api_user'' ''t1'' ''nas'') =
   (Inr (''api_user'', ''t1'', ''nas''), (clean_nonces Map.empty 120)(''n0nce'' \<mapsto> 100 + 30))"
proof -
  have c: "\<And>raw. example_b64decode (example_b64encode raw) = Some raw"
    by (simp add: example_b64decode_def example_b64encode_def)
  have l: "\<And>k m. length (example_hmac k m) = 32" by (simp add: example_hmac_def)
  show ?thesis
    by (rule issued_token_verifies [where b64decode = example_b64decode
          and b64encode = example_b64encode and hmac = example_hmac, OF c l]) simp_all
qed

lemma colon_in_user_breaks_round_trip:
  "fst (verify_token example_hmac example_b64decode ''k'' Map.empty 120
     (issue_token example_hmac example_b64encode ''k'' 30 100 ''n0nce'' ''a:b'' ''t1'' ''99999'')) =
   Inr (''a'', ''b'', ''t1'')"
  by (simp add: issue_token_def verify_token_def Let_def example_hmac_def example_b64encode_def
      example_b64decode_def str_int_def str_nat.simps digit_char_def py_int_def str_strip_def
      is_unicode_space_def is_digit_def digit_value_def clean_nonces_def)


section \<open>Properties of the JSON-mode substitution\<close>

lemma replace_json_placeholders_result_parses:
  assumes "replace_json_placeholders float_dumps json_text host params = Inr r"
  shows "\<exists>v. json_loads r = Some v"
  using assms
  by (auto simp: replace_json_placeholders_def split: sum.splits option.splits)

lemma string_placeholder_scenario:
  "replace_json_placeholders no_float ''{\"name\": <string_name>}'' ''nas''
      [(''name'', PStr ''\",\"x\":\"y'')] =
     Inr (''{\"name\": '' @ json_dumps_str ''\",\"x\":\"y'' @ ''}'') \<and>
   json_loads (''{\"name\": '' @ json_dumps_str ''\",\"x\":\"y'' @ ''}'') =
     Some (JObject [(ustr ''name'', JString (ustr ''\",\"x\":\"y''))])"
  by code_simp

lemma hexval_hex_char: "d < 16 \<Longrightarrow> hexval (hex_char d) = Some d"
  by (auto simp: hexval_def hex_char_def Let_def)

lemma hexval_zero: "hexval CHR ''0'' = Some 0"
  by (simp add: hexval_def)

lemma hex4_byte: "n < 256 \<Longrightarrow> hex4 CHR ''0'' CHR ''0'' (hex_char (n div 16)) (hex_char (n mod 16)) = Some n"
proof -
  assume "n < 256"
  then have "n div 16 < 16" by simp
  then show ?thesis
    by (simp add: hex4_def hexval_zero hexval_hex_char)
qed

lemma scan_string_escape_char:
  "scan_string (escape_char c @ rest) =
     (case scan_string rest of None \<Rightarrow> None | Some (str, r) \<Rightarrow> Some (of_char c # str, r))"
proof -
  let ?n = "of_char c :: nat"
  have n: "?n < 256" by simp
  have a: "x = y \<longleftrightarrow> (of_char x :: nat) = of_char y" for x y :: char by simp
  consider (quote) "c = CHR 0x22" | (bs) "c = CHR 0x5C"
    | (ctl) "?n \<in> {8, 9, 10, 12, 13}"
    | (plain) "32 \<le> ?n" "?n \<le> 126" "c \<noteq> CHR 0x22" "c \<noteq> CHR 0x5C"
    | (other) "?n \<notin> {8, 9, 10, 12, 13}" "\<not> (32 \<le> ?n \<and> ?n \<le> 126)"
    by auto
  then show ?thesis
  proof cases
    case quote
    then show ?thesis by (simp add: escape_char_def escape_code_def split: option.splits)
  next
    case bs
    then show ?thesis by (simp add: escape_char_def escape_code_def split: option.splits)
  next
    case ctl
    then have "c \<noteq> CHR 0x22" "c \<noteq> CHR 0x5C" unfolding a by auto
    then show ?thesis using ctl
      by (auto simp: escape_char_def escape_code_def Let_def split: option.splits)
  next
    case plain
    then show ?thesis
      by (auto simp: escape_char_def Let_def split: option.splits)
  next
    case other
    then have ne: "c \<noteq> CHR 0x22" "c \<noteq> CHR 0x5C" unfolding a by auto
    have e: "escape_char c = [CHR 0x5C, CHR ''u'', CHR ''0'', CHR ''0'', hex_char (?n div 16), hex_char (?n mod 16)]"
      using other ne by (auto simp: escape_char_def Let_def)
    from n have big: "\<not> 55296 \<le> ?n" by linarith
    show ?thesis
      unfolding e using hex4_byte [OF n] big
      by (simp split: option.splits)
  qed
qed

lemma scan_string_dumps_body:
  "scan_string (concat (map escape_char s) @ CHR 0x22 # rest) = Some (ustr s, rest)"
  by (induction s) (simp_all add: ustr_def scan_string_escape_char)

lemma json_dumps_str_is_one_token:
  "parse_value (Suc n) (json_dumps_str s @ rest) = Some (JString (ustr s), rest)"
  by (simp add: json_dumps_str_def scan_string_dumps_body)

lemma json_loads_dumps_str: "json_loads (json_dumps_str s) = Some (JString (ustr s))"
  using json_dumps_str_is_one_token [of "length (json_dumps_str s)" s "[]"]
  by (simp add: json_loads_def json_dumps_str_def skip_ws_def is_json_ws_def)


text \<open>
  Claim C1. A result that is returned parses as JSON, a string value alone is encoded
  as one JSON string token, and the scenario of the specification keeps the single key
  (lemmas above). But the loops substitute one parameter after the other into the
  text that earlier substitutions produced, placeholders inside substituted values
  included. With the template \<open>{"name": <string_name>}\<close> and the parameters
  \<open>name = "<string_x>"\<close>, \<open>x = ",<string_y>:"\<close>, \<open>y = "k"\<close>, the quotes that close and
  open the tokens of the later substitutions change the structure: the result is
  \<open>{"name": "","k":""}\<close>, which parses, with the two keys \<open>name\<close> and \<open>k\<close>.
\<close>

theorem nested_placeholder_injects_key:
  "replace_json_placeholders no_float ''{\"name\": <string_name>}'' ''nas''
      [(''name'', PStr ''<string_x>''), (''x'', PStr '',<string_y>:''), (''y'', PStr ''k'')] =
     Inr ''{\"name\": \"\",\"k\":\"\"}'' \<and>
   json_loads ''{\"name\": \"\",\"k\":\"\"}'' =
     Some (JObject [(ustr ''name'', JString []), (ustr ''k'', JString [])]) \<and>
   map_option object_keys (json_loads ''{\"name\": \"\",\"k\":\"\"}'') =
     Some (Some [ustr ''name'', ustr ''k''])"
  by code_simp


end
